theory Spec2Isabelle
  imports Main "HOL-Library.Word" "HOL-Library.AList" "HOL-Library.Signed_Division"
    "HOL-Library.List_Lexorder" "HOL-Library.Product_Lexorder"
begin

section \<open>TallyResult (types/v1, tally helpers)\<close>

text \<open>
  \<open>math.Int\<close> is an arbitrary-precision integer, modelled as \<open>int\<close>. Its \<open>String\<close> method
  prints the decimal digits, with a leading minus sign for a negative value.
\<close>

definition digit :: "nat \<Rightarrow> char" where
  "digit d = ''0123456789'' ! d"

function natString :: "nat \<Rightarrow> string" where
  "natString n =
     (if n < 10 then [digit n] else natString (n div 10) @ [digit (n mod 10)])"
  by pat_completeness auto
termination
  by (relation "measure id") auto

declare natString.simps [simp del]

definition Int_String :: "int \<Rightarrow> string" where
  "Int_String i = (if i < 0 then CHR ''-'' # natString (nat (- i)) else natString (nat i))"

text \<open>
  The constructor \<open>NewTallyResult\<close> fills the three fields \<open>YesCount\<close>, \<open>AbstainCount\<close> and
  \<open>NoCount\<close>, and \<open>Equals\<close> compares these three; the record has the fields the code names.
\<close>

record TallyResult =
  YesCount :: string
  AbstainCount :: string
  NoCount :: string

definition NewTallyResult :: "int \<Rightarrow> int \<Rightarrow> int \<Rightarrow> TallyResult" where
  "NewTallyResult yes abstain no =
     \<lparr>YesCount = Int_String yes, AbstainCount = Int_String abstain, NoCount = Int_String no\<rparr>"

definition EmptyTallyResult :: TallyResult where
  "EmptyTallyResult = NewTallyResult 0 0 0"

definition Equals :: "TallyResult \<Rightarrow> TallyResult \<Rightarrow> bool" where
  "Equals tr comp' \<longleftrightarrow>
     YesCount tr = YesCount comp' \<and> AbstainCount tr = AbstainCount comp' \<and>
     NoCount tr = NoCount comp'"

text \<open>The counts a \<open>TallyResult\<close> carries, in field order.\<close>

definition TallyResult_counts :: "TallyResult \<Rightarrow> string list" where
  "TallyResult_counts tr = [YesCount tr, AbstainCount tr, NoCount tr]"


section \<open>Decimals and integers of the math library\<close>

text \<open>
  \<open>sdk.Dec\<close> is a fixed-point decimal with 18 fractional digits: a big integer holding the
  value times \<open>10^18\<close>. The model keeps that scaled integer. \<open>math.Int\<close> and \<open>sdk.Dec\<close> are
  unbounded here; the library's range checks (256-bit integers) are not part of the model.
  The operations below are the ones \<open>getGovernorBondedTokens\<close> calls. Integer division of
  the library (\<open>big.Int.Quo\<close>, \<open>QuoRem\<close>) truncates toward zero, which is \<open>sdiv\<close>, and
  panics on a zero divisor.
\<close>

type_synonym Dec = int

datatype panic =
    NoSelfDelegation    \<comment> \<open>\<open>panic("active governor without governance self-delegation")\<close>\<close>
  | InvalidBech32       \<comment> \<open>\<open>MustGovernorAddressFromBech32\<close> on a malformed string\<close>
  | DivisionByZero      \<comment> \<open>\<open>big.Int.Quo\<close> with a zero divisor\<close>
  | NilDereference      \<comment> \<open>use of the nil big integer inside a zero-value \<open>Int\<close> or \<open>Dec\<close>\<close>

definition precisionReuse :: int where
  "precisionReuse = 10 ^ 18"

definition fivePrecision :: int where
  "fivePrecision = precisionReuse sdiv 2"

text \<open>\<open>chopPrecisionAndRound\<close>: divide by \<open>10^18\<close>, rounding half to even, sign handled first.\<close>

definition chopRoundNonneg :: "int \<Rightarrow> int" where
  "chopRoundNonneg d =
     (let quo = d sdiv precisionReuse; rem = d smod precisionReuse in
      if rem = 0 then quo
      else if rem < fivePrecision then quo
      else if rem > fivePrecision then quo + 1
      else if even quo then quo else quo + 1)"

definition chopPrecisionAndRound :: "int \<Rightarrow> int" where
  "chopPrecisionAndRound d = (if d < 0 then - chopRoundNonneg (- d) else chopRoundNonneg d)"

definition Dec_MulInt :: "Dec \<Rightarrow> int \<Rightarrow> Dec" where
  "Dec_MulInt d i = d * i"

definition Dec_Quo :: "Dec \<Rightarrow> Dec \<Rightarrow> panic + Dec" where
  "Dec_Quo d d2 =
     (if d2 = 0 then Inl DivisionByZero
      else Inr (chopPrecisionAndRound ((d * (precisionReuse * precisionReuse)) sdiv d2)))"

definition Dec_TruncateInt :: "Dec \<Rightarrow> int" where
  "Dec_TruncateInt d = d sdiv precisionReuse"

section \<open>Governors, the staking keeper and the store\<close>

text \<open>
  Addresses are byte strings; a governor address and the account address obtained from it
  by \<open>sdk.AccAddress(govAddr)\<close> are the same bytes.
\<close>

type_synonym Address = "nat list"

text \<open>
  Modelled from the spec: the \<open>Governor\<close> message, its status enumeration and its getters
  (\<open>GetAddress\<close>, \<open>GetVotingPower\<close>, \<open>IsActive\<close>) are declared outside the files at hand. A
  governor has an address, a lifecycle status and a voting power; the getters read the
  fields; \<open>Governor{}\<close> is the zero value, whose status is the enumeration's zero.
\<close>

datatype GovernorStatus = Unspecified | Active | Inactive

record Governor =
  GovernorAddress :: Address
  Status :: GovernorStatus
  VotingPower :: Dec

definition Governor_zero :: Governor where
  "Governor_zero = \<lparr>GovernorAddress = [], Status = Unspecified, VotingPower = 0\<rparr>"

definition IsActive :: "Governor \<Rightarrow> bool" where
  "IsActive g \<longleftrightarrow> Status g = Active"

text \<open>
  The staking keeper \<open>k.sk\<close>: the delegations of an account in iteration order, and the
  validators by address. A validator answers \<open>GetBondedTokens\<close> and \<open>GetDelegatorShares\<close>.
\<close>

record Validator =
  BondedTokens :: int
  DelegatorShares :: Dec

record Delegation =
  ValidatorAddr :: Address
  Shares :: Dec

record StakingKeeper =
  Delegations :: "Address \<Rightarrow> Delegation list"
  Validators :: "Address \<rightharpoonup> Validator"

record GovernanceDelegation =
  DelegatorAddress :: Address
  DelGovernorAddress :: string

record Params =
  MaxGovernors :: "64 word"
  MinGovernorSelfDelegation :: string

text \<open>
  The module's key-value store, one component per key prefix. Governors are keyed by
  address. The power index maps a key (voting power, address) to the governor address; it is
  an association list of key and value. A store holds one value per key, and iteration is
  by key order, so the order of the list itself carries no meaning.
\<close>

type_synonym PowerKey = "Dec \<times> Address"

record Context =
  governorStore :: "Address \<rightharpoonup> Governor"
  governorsByPower :: "(PowerKey \<times> Address) list"
  governanceDelegations :: "Address \<rightharpoonup> GovernanceDelegation"
  params :: Params

text \<open>
  Two functions of libraries are parameters of the model: \<open>math.NewIntFromString\<close>, which
  yields no integer on an unparsable string, and the Bech32 decoder of governor addresses.
\<close>

record Keeper =
  sk :: StakingKeeper
  NewIntFromString :: "string \<Rightarrow> int option"
  GovernorAddressFromBech32 :: "string \<Rightarrow> Address option"

text \<open>
  Modelled from the spec: \<open>GovernorsByPowerKey\<close> is declared outside the files at hand. The
  key of the power index is the pair (voting power, address), ordered lexicographically,
  so that a descending scan is by descending voting power, ties broken by address.
\<close>

definition GovernorsByPowerKey :: "Address \<Rightarrow> Dec \<Rightarrow> PowerKey" where
  "GovernorsByPowerKey addr votingPower = (votingPower, addr)"

definition GetGovernor :: "Context \<Rightarrow> Address \<Rightarrow> Governor \<times> bool" where
  "GetGovernor ctx addr =
     (case governorStore ctx addr of None \<Rightarrow> (Governor_zero, False) | Some g \<Rightarrow> (g, True))"

definition SetGovernor :: "Context \<Rightarrow> Governor \<Rightarrow> Context" where
  "SetGovernor ctx governor =
     ctx\<lparr>governorStore := (governorStore ctx)(GovernorAddress governor \<mapsto> governor)\<rparr>"

definition SetGovernorByPowerIndex :: "Context \<Rightarrow> Governor \<Rightarrow> Context" where
  "SetGovernorByPowerIndex ctx governor =
     ctx\<lparr>governorsByPower :=
       AList.update (GovernorsByPowerKey (GovernorAddress governor) (VotingPower governor))
         (GovernorAddress governor) (governorsByPower ctx)\<rparr>"

definition DeleteGovernorByPowerIndex :: "Context \<Rightarrow> Governor \<Rightarrow> Context" where
  "DeleteGovernorByPowerIndex ctx governor =
     ctx\<lparr>governorsByPower :=
       AList.delete (GovernorsByPowerKey (GovernorAddress governor) (VotingPower governor))
         (governorsByPower ctx)\<rparr>"

definition UpdateGovernorByPowerIndex :: "Context \<Rightarrow> Governor \<Rightarrow> Context" where
  "UpdateGovernorByPowerIndex ctx governor =
     (let oldGovernor = fst (GetGovernor ctx (GovernorAddress governor));
          ctx1 = DeleteGovernorByPowerIndex ctx oldGovernor;
          ctx2 = SetGovernorByPowerIndex ctx1 governor
      in SetGovernor ctx2 governor)"

text \<open>The reverse prefix iterator visits the entries by descending key.\<close>

definition KVStoreReversePrefixIterator :: "(PowerKey \<times> Address) list \<Rightarrow> (PowerKey \<times> Address) list" where
  "KVStoreReversePrefixIterator entries = rev (sort_key fst entries)"

text \<open>
  Modelled from the spec: \<open>GetGovernanceDelegation\<close> is declared outside the files at hand;
  it looks the delegator account up in the governance-delegation relation.
\<close>

definition GetGovernanceDelegation :: "Context \<Rightarrow> Address \<Rightarrow> GovernanceDelegation option" where
  "GetGovernanceDelegation ctx delAddr = governanceDelegations ctx delAddr"

section \<open>Bonded tokens and the minimum self-delegation\<close>

text \<open>
  One step of the callback in \<open>getGovernorBondedTokens\<close>. The found flag of \<open>GetValidator\<close>
  is dropped; an absent validator is the zero value, whose delegator shares hold a nil big
  integer, and the quotient by it panics.
\<close>

definition delegationBondedTokens :: "StakingKeeper \<Rightarrow> Delegation \<Rightarrow> panic + int" where
  "delegationBondedTokens s delegation =
     (case Validators s (ValidatorAddr delegation) of
        None \<Rightarrow> Inl NilDereference
      | Some validator \<Rightarrow>
          (case Dec_Quo (Dec_MulInt (Shares delegation) (BondedTokens validator))
                  (DelegatorShares validator) of
             Inl e \<Rightarrow> Inl e
           | Inr q \<Rightarrow> Inr (Dec_TruncateInt q)))"

fun iterateDelegations :: "StakingKeeper \<Rightarrow> int \<Rightarrow> Delegation list \<Rightarrow> panic + int" where
  "iterateDelegations s bondedTokens [] = Inr bondedTokens"
| "iterateDelegations s bondedTokens (delegation # rest) =
     (case delegationBondedTokens s delegation of
        Inl e \<Rightarrow> Inl e
      | Inr bt \<Rightarrow> iterateDelegations s (bondedTokens + bt) rest)"

definition getGovernorBondedTokens :: "Keeper \<Rightarrow> Address \<Rightarrow> panic + int" where
  "getGovernorBondedTokens k govAddr = iterateDelegations (sk k) 0 (Delegations (sk k) govAddr)"

definition ValidateGovernorMinSelfDelegation :: "Keeper \<Rightarrow> Context \<Rightarrow> Governor \<Rightarrow> panic + bool" where
  "ValidateGovernorMinSelfDelegation k ctx governor =
     (let minGovernorSelfDelegation =
            NewIntFromString k (MinGovernorSelfDelegation (params ctx));
          delAddr = GovernorAddress governor
      in case getGovernorBondedTokens k (GovernorAddress governor) of
           Inl e \<Rightarrow> Inl e
         | Inr bondedTokens \<Rightarrow>
             if \<not> IsActive governor then Inr False
             else (case GetGovernanceDelegation ctx delAddr of
                     None \<Rightarrow> Inl NoSelfDelegation
                   | Some del \<Rightarrow>
                       (case GovernorAddressFromBech32 k (DelGovernorAddress del) of
                          None \<Rightarrow> Inl InvalidBech32
                        | Some a \<Rightarrow>
                            if GovernorAddress governor \<noteq> a then Inl NoSelfDelegation
                            else (case minGovernorSelfDelegation of
                                    None \<Rightarrow> Inl NilDereference
                                  | Some m \<Rightarrow> Inr (\<not> bondedTokens < m)))))"

section \<open>Iteration over the top governors\<close>

text \<open>
  The loop of \<open>IterateMaxGovernorsByGovernancePower\<close> over the entries the iterator still
  has to visit. The result is the list of the calls made to the callback, each with its
  index and governor, and the panic that ended the loop, if one did. The callback is a
  function of its arguments that answers whether to stop. The counter is a \<open>uint64\<close>.
\<close>

fun iterateLoop ::
  "Keeper \<Rightarrow> Context \<Rightarrow> (int \<Rightarrow> Governor \<Rightarrow> bool) \<Rightarrow> 64 word \<Rightarrow> 64 word \<Rightarrow>
   (PowerKey \<times> Address) list \<Rightarrow> (int \<times> Governor) list \<times> panic option" where
  "iterateLoop k ctx cb maxGovernors totGovernors [] = ([], None)"
| "iterateLoop k ctx cb maxGovernors totGovernors (entry # rest) =
     (if \<not> totGovernors \<le> maxGovernors then ([], None)
      else
        let governor = fst (GetGovernor ctx (snd entry)) in
        if \<not> IsActive governor then iterateLoop k ctx cb maxGovernors totGovernors rest
        else
          (case ValidateGovernorMinSelfDelegation k ctx governor of
             Inl e \<Rightarrow> ([], Some e)
           | Inr False \<Rightarrow> iterateLoop k ctx cb maxGovernors totGovernors rest
           | Inr True \<Rightarrow>
               if cb (sint totGovernors) governor then ([(sint totGovernors, governor)], None)
               else
                 (case iterateLoop k ctx cb maxGovernors (totGovernors + 1) rest of
                    (calls, p) \<Rightarrow> ((sint totGovernors, governor) # calls, p))))"

definition IterateMaxGovernorsByGovernancePower ::
  "Keeper \<Rightarrow> Context \<Rightarrow> (int \<Rightarrow> Governor \<Rightarrow> bool) \<Rightarrow> (int \<times> Governor) list \<times> panic option" where
  "IterateMaxGovernorsByGovernancePower k ctx cb =
     iterateLoop k ctx cb (MaxGovernors (params ctx)) 0
       (KVStoreReversePrefixIterator (governorsByPower ctx))"

section \<open>The specification's formula for bonded tokens\<close>

text \<open>
  The specification gives the tokens of one delegation as the exact quotient
  shares \<open>\<times>\<close> bonded tokens \<open>\<div>\<close> total delegator shares, truncated toward zero. Shares and
  total shares carry the same scale \<open>10^18\<close>, which cancels in the quotient.
\<close>

definition spec_delegationTokens :: "Validator \<Rightarrow> Delegation \<Rightarrow> int" where
  "spec_delegationTokens validator delegation =
     (Shares delegation * BondedTokens validator) sdiv DelegatorShares validator"

definition spec_bondedTokens :: "StakingKeeper \<Rightarrow> Address \<Rightarrow> int" where
  "spec_bondedTokens s govAddr =
     sum_list (map (\<lambda>d. spec_delegationTokens (the (Validators s (ValidatorAddr d))) d)
       (Delegations s govAddr))"

text \<open>
  The digits of the exact quotient of one delegation after the decimal point: the first 18
  of them as a number below \<open>10^18\<close>, and the next 18 likewise. The quotient lies within
  half a unit of the 18th digit below the next integer when the first 18 digits are all
  nines and the next 18 make at least one half; there the quotient rounded to 18 digits is
  that integer. The tokens of a delegation with the rounding taken into account are the
  specification's value, or one more when the quotient is of this kind.
\<close>

definition quotientFraction :: "Validator \<Rightarrow> Delegation \<Rightarrow> int" where
  "quotientFraction validator delegation =
     ((Shares delegation * BondedTokens validator * precisionReuse) div DelegatorShares validator)
       mod precisionReuse"

definition quotientRemainder :: "Validator \<Rightarrow> Delegation \<Rightarrow> int" where
  "quotientRemainder validator delegation =
     ((Shares delegation * BondedTokens validator * (precisionReuse * precisionReuse))
        div DelegatorShares validator) mod precisionReuse"

definition roundsUp :: "Validator \<Rightarrow> Delegation \<Rightarrow> bool" where
  "roundsUp validator delegation \<longleftrightarrow>
     quotientFraction validator delegation = precisionReuse - 1 \<and>
     precisionReuse div 2 \<le> quotientRemainder validator delegation"

definition rounded_delegationTokens :: "Validator \<Rightarrow> Delegation \<Rightarrow> int" where
  "rounded_delegationTokens validator delegation =
     spec_delegationTokens validator delegation + (if roundsUp validator delegation then 1 else 0)"

section \<open>Invariant of the power index\<close>

text \<open>The entries of the power index whose stored value is a given governor address.\<close>

definition indexEntriesOf :: "Context \<Rightarrow> Address \<Rightarrow> (PowerKey \<times> Address) list" where
  "indexEntriesOf ctx addr = filter (\<lambda>entry. snd entry = addr) (governorsByPower ctx)"

text \<open>
  Whether an index entry resolves to a governor that the iteration hands to the callback:
  the governor is active and passes the minimum self-delegation check.
\<close>

definition entryGovernor :: "Context \<Rightarrow> PowerKey \<times> Address \<Rightarrow> Governor" where
  "entryGovernor ctx entry = fst (GetGovernor ctx (snd entry))"

definition entryEligible :: "Keeper \<Rightarrow> Context \<Rightarrow> PowerKey \<times> Address \<Rightarrow> bool" where
  "entryEligible k ctx entry \<longleftrightarrow>
     IsActive (entryGovernor ctx entry) \<and>
     ValidateGovernorMinSelfDelegation k ctx (entryGovernor ctx entry) = Inr True"

text \<open>The calls the loop makes for a list of governors, numbered from the running count.\<close>

fun numbered :: "64 word \<Rightarrow> Governor list \<Rightarrow> (int \<times> Governor) list" where
  "numbered tot [] = []"
| "numbered tot (g # gs) = (sint tot, g) # numbered (tot + 1) gs"

section \<open>An example state\<close>

text \<open>
  One validator with 2000 bonded tokens for 1000 shares, one with a single bonded token for
  3 shares, one with no shares at all. Governors 1, 2, 3 and 5 are active and delegate to
  themselves; governor 4 is inactive; the index entry of address 7 has no governor record;
  the governance delegation of account 13 names governor 1.
\<close>

definition ex_sk :: StakingKeeper where
  "ex_sk =
     \<lparr>Delegations = (\<lambda>a.
        if a = [6] then [\<lparr>ValidatorAddr = [8], Shares = 2999999999999999999\<rparr>]
        else if a = [11] then [\<lparr>ValidatorAddr = [10], Shares = 1000000000000000000\<rparr>]
        else if a \<in> set [[1], [2], [3], [5]]
          then [\<lparr>ValidatorAddr = [9], Shares = 1000000000000000000000\<rparr>]
        else []),
      Validators =
        [[9] \<mapsto> \<lparr>BondedTokens = 2000, DelegatorShares = 1000000000000000000000\<rparr>,
         [8] \<mapsto> \<lparr>BondedTokens = 1, DelegatorShares = 3000000000000000000\<rparr>,
         [10] \<mapsto> \<lparr>BondedTokens = 0, DelegatorShares = 0\<rparr>]\<rparr>"

definition ex_keeper :: Keeper where
  "ex_keeper =
     \<lparr>sk = ex_sk,
      NewIntFromString = (\<lambda>s. if s = ''1000'' then Some 1000 else None),
      GovernorAddressFromBech32 = (\<lambda>s.
        if s = ''gov1'' then Some [1] else if s = ''gov2'' then Some [2]
        else if s = ''gov3'' then Some [3] else if s = ''gov5'' then Some [5] else None)\<rparr>"

definition ex_governor :: "nat \<Rightarrow> GovernorStatus \<Rightarrow> Dec \<Rightarrow> Governor" where
  "ex_governor n st p = \<lparr>GovernorAddress = [n], Status = st, VotingPower = p\<rparr>"

definition ex_ctx :: Context where
  "ex_ctx =
     \<lparr>governorStore =
        [[1] \<mapsto> ex_governor 1 Active 300, [2] \<mapsto> ex_governor 2 Active 200,
         [3] \<mapsto> ex_governor 3 Active 100, [4] \<mapsto> ex_governor 4 Inactive 400,
         [5] \<mapsto> ex_governor 5 Active 50],
      governorsByPower =
        [((100, [3]), [3]), ((300, [1]), [1]), ((400, [4]), [4]), ((250, [7]), [7]),
         ((50, [5]), [5]), ((200, [2]), [2])],
      governanceDelegations =
        [[1] \<mapsto> \<lparr>DelegatorAddress = [1], DelGovernorAddress = ''gov1''\<rparr>,
         [2] \<mapsto> \<lparr>DelegatorAddress = [2], DelGovernorAddress = ''gov2''\<rparr>,
         [3] \<mapsto> \<lparr>DelegatorAddress = [3], DelGovernorAddress = ''gov3''\<rparr>,
         [5] \<mapsto> \<lparr>DelegatorAddress = [5], DelGovernorAddress = ''gov5''\<rparr>,
         [13] \<mapsto> \<lparr>DelegatorAddress = [13], DelGovernorAddress = ''gov1''\<rparr>],
      params = \<lparr>MaxGovernors = 2, MinGovernorSelfDelegation = ''1000''\<rparr>\<rparr>"

text \<open>The same state with a minimum self-delegation that does not parse.\<close>

definition ex_ctx_malformed :: Context where
  "ex_ctx_malformed =
     ex_ctx\<lparr>params := \<lparr>MaxGovernors = 2, MinGovernorSelfDelegation = ''1e3x''\<rparr>\<rparr>"

definition never_stop :: "int \<Rightarrow> Governor \<Rightarrow> bool" where
  "never_stop i g = False"

text \<open>A callback that stops at its first call.\<close>

definition always_stop :: "int \<Rightarrow> Governor \<Rightarrow> bool" where
  "always_stop i g = True"

text \<open>
  The example state with one governor more: governor 12 is active, ranks first and has no
  governance self-delegation; \<open>MaxGovernors\<close> is 0.
\<close>

definition ex_ctx_corrupt :: Context where
  "ex_ctx_corrupt =
     ex_ctx\<lparr>governorStore := (governorStore ex_ctx)([12] \<mapsto> ex_governor 12 Active 500),
            governorsByPower := ((500, [12]), [12]) # governorsByPower ex_ctx,
            params := \<lparr>MaxGovernors = 0, MinGovernorSelfDelegation = ''1000''\<rparr>\<rparr>"

text \<open>A parser that reads \<open>"-5"\<close> as well, and the example state with that minimum.\<close>

definition ex_keeper_signed :: Keeper where
  "ex_keeper_signed =
     ex_keeper\<lparr>NewIntFromString :=
       (\<lambda>s. if s = ''-5'' then Some (- 5) else NewIntFromString ex_keeper s)\<rparr>"

definition ex_ctx_negative :: Context where
  "ex_ctx_negative =
     ex_ctx\<lparr>params := \<lparr>MaxGovernors = 2, MinGovernorSelfDelegation = ''-5''\<rparr>\<rparr>"

text \<open>
  A governor with five delegations: one with an exact quotient, one whose quotient rounds
  up to the next integer, one whose quotient has 18 nines followed by less than one half,
  one exactly one half below the integer, and one with a plain fraction.
\<close>

definition ex_sk_rounding :: StakingKeeper where
  "ex_sk_rounding =
     \<lparr>Delegations = (\<lambda>a.
        if a = [14] then
          [\<lparr>ValidatorAddr = [9], Shares = 1000500000000000000000\<rparr>,
           \<lparr>ValidatorAddr = [8], Shares = 2999999999999999999\<rparr>,
           \<lparr>ValidatorAddr = [16], Shares = 9999999999999999994\<rparr>,
           \<lparr>ValidatorAddr = [16], Shares = 9999999999999999995\<rparr>,
           \<lparr>ValidatorAddr = [17], Shares = 1000000000000000000\<rparr>]
        else []),
      Validators =
        [[9] \<mapsto> \<lparr>BondedTokens = 2000, DelegatorShares = 1000000000000000000000\<rparr>,
         [8] \<mapsto> \<lparr>BondedTokens = 1, DelegatorShares = 3000000000000000000\<rparr>,
         [16] \<mapsto> \<lparr>BondedTokens = 1, DelegatorShares = 10000000000000000000\<rparr>,
         [17] \<mapsto> \<lparr>BondedTokens = 7, DelegatorShares = 3000000000000000000\<rparr>]\<rparr>"

definition ex_keeper_rounding :: Keeper where
  "ex_keeper_rounding = ex_keeper\<lparr>sk := ex_sk_rounding\<rparr>"

section \<open>Auxiliary facts\<close>

lemma IsActive_zero: "\<not> IsActive Governor_zero"
  by (simp add: IsActive_def Governor_zero_def)

lemma iterateLoop_calls_eligible:
  "(i, g) \<in> set (fst (iterateLoop k ctx cb maxG tot es)) \<Longrightarrow>
     IsActive g \<and> ValidateGovernorMinSelfDelegation k ctx g = Inr True"
  by (induction es arbitrary: tot)
     (auto simp: Let_def case_prod_beta split: if_splits sum.splits bool.splits)

lemma iterateLoop_over_cap:
  "\<not> tot \<le> maxG \<Longrightarrow> iterateLoop k ctx cb maxG tot es = ([], None)"
  by (cases es) simp_all

lemma iterateLoop_skip_absent:
  assumes "governorStore ctx (snd entry) = None"
  shows "iterateLoop k ctx cb maxG tot (entry # rest) = iterateLoop k ctx cb maxG tot rest"
proof (cases "tot \<le> maxG")
  case True
  with assms show ?thesis by (simp add: GetGovernor_def IsActive_zero)
next
  case False
  then show ?thesis by (simp add: iterateLoop_over_cap del: iterateLoop.simps)
qed

lemma iterateLoop_filter:
  assumes "\<And>e. e \<in> set es \<Longrightarrow> \<not> P e \<Longrightarrow> governorStore ctx (snd e) = None"
  shows "iterateLoop k ctx cb maxG tot (filter P es) = iterateLoop k ctx cb maxG tot es"
  using assms
proof (induction es arbitrary: tot)
  case Nil
  then show ?case by simp
next
  case (Cons e es)
  show ?case
  proof (cases "P e")
    case True
    then show ?thesis using Cons by (simp add: Let_def split: sum.splits bool.splits prod.splits)
  next
    case False
    then have "governorStore ctx (snd e) = None" using Cons.prems by simp
    then show ?thesis
      using False Cons by (simp only: iterateLoop_skip_absent filter.simps if_False) simp
  qed
qed

lemma Validate_index_irrelevant:
  "ValidateGovernorMinSelfDelegation k (ctx\<lparr>governorsByPower := idx\<rparr>) g =
   ValidateGovernorMinSelfDelegation k ctx g"
  by (simp add: ValidateGovernorMinSelfDelegation_def GetGovernanceDelegation_def
      cong: sum.case_cong if_cong option.case_cong)

lemma iterateLoop_index_irrelevant:
  "iterateLoop k (ctx\<lparr>governorsByPower := idx\<rparr>) cb maxG tot es = iterateLoop k ctx cb maxG tot es"
  by (induction es arbitrary: tot)
     (simp_all add: Validate_index_irrelevant GetGovernor_def Let_def
       cong: sum.case_cong if_cong bool.case_cong)

lemma reverse_iterator_removeAll:
  "KVStoreReversePrefixIterator (removeAll e idx) =
     filter (\<lambda>x. x \<noteq> e) (KVStoreReversePrefixIterator idx)"
proof -
  have "removeAll e idx = filter (\<lambda>x. x \<noteq> e) idx"
    by (induction idx) auto
  then show ?thesis
    unfolding KVStoreReversePrefixIterator_def
    by (simp only: filter_sort [symmetric] rev_filter)
qed

lemma ex_run:
  "IterateMaxGovernorsByGovernancePower ex_keeper ex_ctx never_stop =
     ([(0, ex_governor 1 Active 300), (1, ex_governor 2 Active 200),
       (2, ex_governor 3 Active 100)], None)"
  by code_simp

lemma iterateDelegations_panics:
  assumes "d \<in> set ds" and "delegationBondedTokens s d = Inl e"
  shows "\<exists>e'. iterateDelegations s acc ds = Inl e'"
  using assms by (induction ds arbitrary: acc) (auto split: sum.splits)

lemma sdiv_nonneg: "0 \<le> k \<Longrightarrow> 0 < l \<Longrightarrow> k sdiv l = k div (l::int)"
  by (cases "k = 0") (simp_all add: signed_divide_int_def)

lemma precisionReuse_pos: "0 < precisionReuse"
  by (simp add: precisionReuse_def)

lemma succ_div:
  fixes y P :: int
  assumes "0 < P"
  shows "(y + 1) div P = (if y mod P = P - 1 then y div P + 1 else y div P)"
proof (cases "y mod P = P - 1")
  case True
  have "y = P * (y div P) + (P - 1)"
    using True mult_div_mod_eq [of P y] by simp
  then have "y + 1 = P * (y div P) + P" by linarith
  then have "y + 1 = P * (y div P + 1) + 0"
    by (simp add: algebra_simps)
  then have "(y + 1) div P = y div P + 1"
    using assms by (intro int_div_pos_eq [where r = 0]) auto
  with True show ?thesis by simp
next
  case False
  have r: "0 \<le> y mod P" "y mod P < P" using assms by simp_all
  have "y = P * (y div P) + y mod P"
    using mult_div_mod_eq [of P y] by simp
  then have "y + 1 = P * (y div P) + (y mod P + 1)" by linarith
  then have "(y + 1) div P = y div P"
    using assms r False by (intro int_div_pos_eq [where r = "y mod P + 1"]) auto
  with False show ?thesis by simp
qed

lemma smod_nonneg: "0 \<le> k \<Longrightarrow> 0 < l \<Longrightarrow> k smod l = k mod (l::int)"
  by (cases "k = 0") (simp_all add: signed_modulo_int_def)

lemma fivePrecision_eq: "fivePrecision = precisionReuse div 2"
  by (simp add: fivePrecision_def precisionReuse_def signed_divide_int_def)

lemma fivePrecision_pos: "0 < precisionReuse div 2"
  by (simp add: precisionReuse_def)

lemma even_precisionReuse: "even precisionReuse"
  by (simp add: precisionReuse_def)

lemma all_nines_odd:
  assumes "y mod precisionReuse = precisionReuse - 1"
  shows "odd y"
proof -
  have "even (y mod precisionReuse) \<longleftrightarrow> even y"
    using even_precisionReuse by (rule dvd_mod_iff)
  moreover have "odd (precisionReuse - 1)" using even_precisionReuse by simp
  ultimately show ?thesis using assms by simp
qed

lemma chopRoundNonneg_exact:
  assumes "0 \<le> q"
  shows "chopRoundNonneg q =
    q div precisionReuse +
      (if precisionReuse div 2 < q mod precisionReuse \<or>
          (q mod precisionReuse = precisionReuse div 2 \<and> odd (q div precisionReuse))
       then 1 else 0)"
  using assms fivePrecision_pos
  by (auto simp: chopRoundNonneg_def Let_def sdiv_nonneg smod_nonneg precisionReuse_pos
      fivePrecision_eq)

lemma quo_trunc_exact:
  fixes a d :: int
  assumes a: "0 \<le> a" and d: "0 < d"
  shows "chopPrecisionAndRound ((a * (precisionReuse * precisionReuse)) sdiv d) sdiv precisionReuse =
    a div d +
      (if (a * precisionReuse) div d mod precisionReuse = precisionReuse - 1 \<and>
          precisionReuse div 2 \<le> (a * (precisionReuse * precisionReuse)) div d mod precisionReuse
       then 1 else 0)"
proof -
  let ?P = precisionReuse
  let ?q1 = "(a * (?P * ?P)) div d"
  let ?y = "(a * ?P) div d"
  let ?up = "?P div 2 < ?q1 mod ?P \<or> (?q1 mod ?P = ?P div 2 \<and> odd ?y)"
  let ?c = "?y + (if ?up then 1 else 0)"
  have P: "0 < ?P" by (rule precisionReuse_pos)
  have q1: "0 \<le> ?q1" using a d P by (simp add: pos_imp_zdiv_nonneg_iff)
  have sq: "(a * (?P * ?P)) sdiv d = ?q1"
    using a d P by (intro sdiv_nonneg) auto
  have "?q1 div ?P = (a * ?P * ?P) div (d * ?P)"
    using P by (simp add: zdiv_zmult2_eq mult.assoc)
  also have "\<dots> = ?y" using P by simp
  finally have y: "?q1 div ?P = ?y" .
  have y0: "0 \<le> ?y" using a d P by (simp add: pos_imp_zdiv_nonneg_iff)
  have "?y div ?P = (a * ?P) div (d * ?P)"
    using P by (simp add: zdiv_zmult2_eq)
  also have "\<dots> = a div d" using P by simp
  finally have yP: "?y div ?P = a div d" .
  have c: "chopPrecisionAndRound ?q1 = ?c"
    using q1 by (simp add: chopPrecisionAndRound_def chopRoundNonneg_exact y)
  have c0: "0 \<le> ?c" using y0 by simp
  have t: "chopPrecisionAndRound ((a * (?P * ?P)) sdiv d) sdiv ?P = ?c div ?P"
    unfolding sq c using c0 P by (rule sdiv_nonneg)
  show ?thesis
  proof (cases "?y mod ?P = ?P - 1")
    case True
    then have "odd ?y" by (rule all_nines_odd)
    then have up: "?up \<longleftrightarrow> ?P div 2 \<le> ?q1 mod ?P" by auto
    show ?thesis
      unfolding t using True up yP succ_div [OF P, of ?y] by simp
  next
    case False
    then show ?thesis
      unfolding t using yP succ_div [OF P, of ?y] by simp
  qed
qed

lemma delegation_term_exact:
  assumes v: "Validators s (ValidatorAddr d) = Some v"
    and "0 < DelegatorShares v" "0 \<le> BondedTokens v" "0 \<le> Shares d"
  shows "delegationBondedTokens s d = Inr (rounded_delegationTokens v d)"
proof -
  let ?a = "Shares d * BondedTokens v"
  have a: "0 \<le> ?a" using assms by simp
  have sp: "spec_delegationTokens v d = ?a div DelegatorShares v"
    using a assms(2) by (simp add: spec_delegationTokens_def sdiv_nonneg)
  show ?thesis
    using v quo_trunc_exact [OF a assms(2)] sp
    by (simp add: delegationBondedTokens_def Dec_Quo_def Dec_MulInt_def Dec_TruncateInt_def
        rounded_delegationTokens_def roundsUp_def quotientFraction_def quotientRemainder_def
        assms(2) [THEN less_imp_neq, symmetric])
qed

lemma iterateDelegations_map:
  "\<forall>d \<in> set ds. delegationBondedTokens s d = Inr (f d) \<Longrightarrow>
     iterateDelegations s acc ds = Inr (acc + sum_list (map f ds))"
  by (induction ds arbitrary: acc) (simp_all add: add.assoc)

lemma validate_unparsable_not_true:
  "NewIntFromString k (MinGovernorSelfDelegation (params ctx)) = None \<Longrightarrow>
     ValidateGovernorMinSelfDelegation k ctx g \<noteq> Inr True"
  by (auto simp: ValidateGovernorMinSelfDelegation_def split: sum.splits option.splits if_splits)

lemma validate_unparsable_active_panics:
  "NewIntFromString k (MinGovernorSelfDelegation (params ctx)) = None \<Longrightarrow> IsActive g \<Longrightarrow>
     \<exists>e. ValidateGovernorMinSelfDelegation k ctx g = Inl e"
  by (auto simp: ValidateGovernorMinSelfDelegation_def split: sum.splits option.splits if_splits)

lemma iterateLoop_unparsable:
  assumes "NewIntFromString k (MinGovernorSelfDelegation (params ctx)) = None"
  shows "fst (iterateLoop k ctx cb maxG tot es) = []"
proof -
  have "\<not> (\<exists>x. x \<in> set (fst (iterateLoop k ctx cb maxG tot es)))"
  proof
    assume "\<exists>x. x \<in> set (fst (iterateLoop k ctx cb maxG tot es))"
    then obtain i g where "(i, g) \<in> set (fst (iterateLoop k ctx cb maxG tot es))" by auto
    then have "ValidateGovernorMinSelfDelegation k ctx g = Inr True"
      using iterateLoop_calls_eligible by blast
    then show False using validate_unparsable_not_true [OF assms] by blast
  qed
  then show ?thesis by (cases "fst (iterateLoop k ctx cb maxG tot es)") auto
qed

lemma iterateLoop_unparsable_aborts:
  assumes "NewIntFromString k (MinGovernorSelfDelegation (params ctx)) = None"
    and "tot \<le> maxG"
  shows "\<exists>entry \<in> set es. IsActive (entryGovernor ctx entry) \<Longrightarrow>
     \<exists>e. iterateLoop k ctx cb maxG tot es = ([], Some e)"
proof (induction es)
  case Nil
  then show ?case by simp
next
  case (Cons x es)
  show ?case
  proof (cases "IsActive (fst (GetGovernor ctx (snd x)))")
    case True
    then obtain e where "ValidateGovernorMinSelfDelegation k ctx (fst (GetGovernor ctx (snd x))) = Inl e"
      using validate_unparsable_active_panics [OF assms(1)] by blast
    then show ?thesis using True assms(2) by simp
  next
    case False
    then have "\<exists>entry \<in> set es. IsActive (entryGovernor ctx entry)"
      using Cons.prems by (auto simp: entryGovernor_def)
    then show ?thesis using Cons.IH False assms(2) by simp
  qed
qed

lemma filter_value_delete:
  "filter (\<lambda>e. snd e = a) (AList.delete key xs) =
     filter (\<lambda>e. fst e \<noteq> key) (filter (\<lambda>e. snd e = a) xs)"
  by (induction xs) auto

lemma filter_value_update_fresh:
  "filter (\<lambda>e. snd e = a) xs = [] \<Longrightarrow>
     filter (\<lambda>e. snd e = a) (AList.update key a xs) = [(key, a)]"
proof (induction xs)
  case Nil
  then show ?case by simp
next
  case (Cons e xs)
  then show ?case by (cases e) (auto split: if_splits)
qed

lemma filter_value_update_other:
  "a \<noteq> b \<Longrightarrow> \<forall>e \<in> set xs. fst e = key \<longrightarrow> snd e \<noteq> a \<Longrightarrow>
     filter (\<lambda>e. snd e = a) (AList.update key b xs) = filter (\<lambda>e. snd e = a) xs"
  by (induction xs) (auto split: if_splits)

lemma filter_value_delete_other:
  "\<forall>e \<in> set xs. fst e = key \<longrightarrow> snd e \<noteq> a \<Longrightarrow>
     filter (\<lambda>e. snd e = a) (AList.delete key xs) = filter (\<lambda>e. snd e = a) xs"
  by (induction xs) (auto split: if_splits)

lemma unat_succ_below:
  fixes tot maxG :: "64 word"
  assumes "tot \<le> maxG" and "unat maxG + 1 < 2 ^ 64"
  shows "unat (tot + 1) = unat tot + 1"
proof -
  have "unat tot \<le> unat maxG" using assms(1) by (simp add: word_le_nat_alt)
  then have "unat tot + unat (1 :: 64 word) < 2 ^ LENGTH(64)"
    using assms(2) by simp
  then show ?thesis
    by (simp add: unat_add_lem [THEN iffD1])
qed

lemma iterateLoop_length_cap:
  assumes "unat maxG + 1 < 2 ^ 64"
  shows "length (fst (iterateLoop k ctx cb maxG tot es)) \<le> unat maxG + 1 - unat tot"
proof (induction es arbitrary: tot)
  case Nil
  then show ?case by simp
next
  case (Cons e es)
  show ?case
  proof (cases "tot \<le> maxG")
    case False
    then show ?thesis by (simp add: iterateLoop_over_cap del: iterateLoop.simps)
  next
    case True
    then have le: "unat tot \<le> unat maxG" by (simp add: word_le_nat_alt)
    have suc: "unat (tot + 1) = unat tot + 1"
      using True assms by (rule unat_succ_below)
    have same: "length (fst (iterateLoop k ctx cb maxG tot es)) \<le> unat maxG + 1 - unat tot"
      by (rule Cons.IH)
    have next': "length (fst (iterateLoop k ctx cb maxG (tot + 1) es)) \<le> unat maxG - unat tot"
      using Cons.IH [of "tot + 1"] suc by simp
    show ?thesis
      using True le same next'
      by (auto simp: Let_def case_prod_beta split: sum.splits bool.splits)
  qed
qed

lemma iterateLoop_length_entries:
  "length (fst (iterateLoop k ctx cb maxG tot es)) \<le> length es"
proof (induction es arbitrary: tot)
  case Nil
  then show ?case by simp
next
  case (Cons e es)
  have "length (fst (iterateLoop k ctx cb maxG tot es)) \<le> length es"
       "length (fst (iterateLoop k ctx cb maxG (tot + 1) es)) \<le> length es"
    by (rule Cons.IH)+
  then show ?case
    by (auto simp: Let_def case_prod_beta split: sum.splits bool.splits)
qed

lemma iterateLoop_full_scan:
  assumes never: "\<forall>i g. \<not> cb i g"
    and nowrap: "unat maxG + 1 < 2 ^ 64"
  shows "\<forall>e \<in> set pre. IsActive (entryGovernor ctx e) \<longrightarrow>
        (\<exists>b. ValidateGovernorMinSelfDelegation k ctx (entryGovernor ctx e) = Inr b) \<Longrightarrow>
     unat tot + length (filter (entryEligible k ctx) pre) = unat maxG + 1 \<Longrightarrow>
     iterateLoop k ctx cb maxG tot (pre @ post) =
       (numbered tot (map (entryGovernor ctx) (filter (entryEligible k ctx) pre)), None)"
proof (induction pre arbitrary: tot)
  case Nil
  then have "\<not> tot \<le> maxG" by (simp add: word_le_nat_alt)
  then show ?case by (simp add: iterateLoop_over_cap del: iterateLoop.simps)
next
  case (Cons e pre)
  have gov: "entryGovernor ctx e = fst (GetGovernor ctx (snd e))"
    by (simp add: entryGovernor_def)
  show ?case
  proof (cases "entryEligible k ctx e")
    case True
    then have le: "tot \<le> maxG" using Cons.prems(2) by (simp add: word_le_nat_alt)
    have suc: "unat (tot + 1) = unat tot + 1"
      using le nowrap by (rule unat_succ_below)
    have ih: "iterateLoop k ctx cb maxG (tot + 1) (pre @ post) =
       (numbered (tot + 1) (map (entryGovernor ctx) (filter (entryEligible k ctx) pre)), None)"
      using Cons.prems True suc by (intro Cons.IH) auto
    have act: "IsActive (fst (GetGovernor ctx (snd e)))"
      and val: "ValidateGovernorMinSelfDelegation k ctx (fst (GetGovernor ctx (snd e))) = Inr True"
      using True by (simp_all add: entryEligible_def entryGovernor_def)
    have ncb: "\<not> cb (sint tot) (fst (GetGovernor ctx (snd e)))"
      using never by simp
    show ?thesis
      using True le act val ncb ih gov by simp
  next
    case False
    have ih: "iterateLoop k ctx cb maxG tot (pre @ post) =
       (numbered tot (map (entryGovernor ctx) (filter (entryEligible k ctx) pre)), None)"
      using Cons.prems False by (intro Cons.IH) auto
    show ?thesis
    proof (cases "tot \<le> maxG")
      case over: False
      then show ?thesis using ih False
        by (simp add: iterateLoop_over_cap del: iterateLoop.simps)
    next
      case True
      show ?thesis
      proof (cases "IsActive (entryGovernor ctx e)")
        case inactive: False
        then have "\<not> IsActive (fst (GetGovernor ctx (snd e)))" by (simp add: gov)
        then show ?thesis using ih False True by simp
      next
        case active: True
        then obtain b where b: "ValidateGovernorMinSelfDelegation k ctx (entryGovernor ctx e) = Inr b"
          using Cons.prems(1) by auto
        from b active False have "\<not> b" by (auto simp: entryEligible_def)
        with b have "ValidateGovernorMinSelfDelegation k ctx (fst (GetGovernor ctx (snd e))) = Inr False"
          by (simp add: gov)
        moreover have "IsActive (fst (GetGovernor ctx (snd e)))" using active by (simp add: gov)
        ultimately show ?thesis using ih False True by simp
      qed
    qed
  qed
qed

lemma numbered_length: "length (numbered tot gs) = length gs"
  by (induction gs arbitrary: tot) simp_all

lemma reverse_iterator_descending:
  "sorted_wrt (\<lambda>a b. fst b \<le> fst a) (KVStoreReversePrefixIterator idx)"
proof -
  have "sorted (map fst (sort_key fst idx))" by (rule sorted_sort_key)
  then have "sorted_wrt (\<lambda>a b. fst a \<le> fst b) (sort_key fst idx)"
    by (simp add: sorted_wrt_map)
  then show ?thesis
    by (simp add: KVStoreReversePrefixIterator_def sorted_wrt_rev)
qed

lemma eligible_prefix_exists:
  "n \<le> length (filter P xs) \<Longrightarrow> \<exists>pre post. xs = pre @ post \<and> length (filter P pre) = n"
proof (induction xs arbitrary: n)
  case Nil
  then show ?case by simp
next
  case (Cons x xs)
  show ?case
  proof (cases n)
    case 0
    then have "x # xs = [] @ (x # xs) \<and> length (filter P []) = n" by simp
    then show ?thesis by blast
  next
    case (Suc m)
    let ?m = "if P x then m else n"
    have "?m \<le> length (filter P xs)" using Cons.prems Suc by (auto split: if_splits)
    then obtain pre post where "xs = pre @ post" "length (filter P pre) = ?m"
      using Cons.IH by blast
    then have "x # xs = (x # pre) @ post \<and> length (filter P (x # pre)) = n"
      using Suc by auto
    then show ?thesis by blast
  qed
qed

lemma digit_cases:
  assumes "d < 10"
  shows "d = 0 \<or> d = 1 \<or> d = 2 \<or> d = 3 \<or> d = 4 \<or> d = 5 \<or> d = 6 \<or> d = 7 \<or> d = 8 \<or> d = (9::nat)"
  using assms by arith

lemma digit_inj:
  assumes "a < 10" "b < 10" "digit a = digit b"
  shows "a = b"
  using digit_cases [OF assms(1)] digit_cases [OF assms(2)] assms(3)
  by (elim disjE) (simp_all add: digit_def)

lemma digit_not_minus:
  assumes "d < 10"
  shows "digit d \<noteq> CHR ''-''"
  using digit_cases [OF assms] by (elim disjE) (simp_all add: digit_def)

lemma natString_nonempty: "natString n \<noteq> []"
  by (subst natString.simps) simp

lemma natString_no_minus: "CHR ''-'' \<notin> set (natString n)"
proof (induction n rule: natString.induct)
  case (1 n)
  show ?case
  proof (cases "n < 10")
    case True
    then show ?thesis using digit_not_minus [of n] by (subst natString.simps) auto
  next
    case False
    then show ?thesis
      using 1 digit_not_minus [of "n mod 10"] by (subst natString.simps) auto
  qed
qed

lemma natString_inj: "natString n = natString m \<Longrightarrow> n = m"
proof (induction n arbitrary: m rule: natString.induct)
  case (1 n)
  show ?case
  proof (cases "n < 10")
    case n: True
    show ?thesis
    proof (cases "m < 10")
      case True
      then show ?thesis using n "1.prems" digit_inj [of n m]
        by (simp add: natString.simps [of n] natString.simps [of m])
    next
      case False
      then show ?thesis using n "1.prems" natString_nonempty [of "m div 10"]
        by (simp add: natString.simps [of n] natString.simps [of m])
    qed
  next
    case n: False
    show ?thesis
    proof (cases "m < 10")
      case True
      then show ?thesis using n "1.prems" natString_nonempty [of "n div 10"]
        by (simp add: natString.simps [of n] natString.simps [of m])
    next
      case False
      then have "natString (n div 10) = natString (m div 10)"
        and d: "digit (n mod 10) = digit (m mod 10)"
        using n "1.prems" by (simp_all add: natString.simps [of n] natString.simps [of m])
      then have "n div 10 = m div 10" using "1.IH" n by simp
      moreover have "n mod 10 = m mod 10" using d by (intro digit_inj) simp_all
      ultimately show ?thesis by (metis div_mult_mod_eq)
    qed
  qed
qed

lemma Int_String_inj: "Int_String i = Int_String j \<Longrightarrow> i = j"
proof -
  assume eq: "Int_String i = Int_String j"
  have hd: "natString n \<noteq> CHR ''-'' # s" for n s
    using natString_no_minus [of n] by auto
  show ?thesis
  proof (cases "i < 0")
    case i: True
    show ?thesis
    proof (cases "j < 0")
      case True
      then have "nat (- i) = nat (- j)" using eq i natString_inj by (simp add: Int_String_def)
      then show ?thesis using i True by simp
    next
      case False
      then show ?thesis using eq [symmetric] i hd [of "nat j"] by (simp add: Int_String_def)
    qed
  next
    case i: False
    show ?thesis
    proof (cases "j < 0")
      case True
      then show ?thesis using eq i hd [of "nat i"] by (simp add: Int_String_def)
    next
      case False
      then have "nat i = nat j" using eq i natString_inj by (simp add: Int_String_def)
      then show ?thesis using i False by simp
    qed
  qed
qed

lemma Int_String_0: "Int_String 0 = ''0''"
  by (simp add: Int_String_def natString.simps digit_def)

section \<open>Who is handed to the callback\<close>

text \<open>
  C2. Whatever the store holds and whatever \<open>MaxGovernors\<close> is, every governor that
  \<open>IterateMaxGovernorsByGovernancePower\<close> hands to the callback is active and passes
  \<open>ValidateGovernorMinSelfDelegation\<close>; this covers the calls made before a panic ends the
  loop as well.
\<close>

theorem yielded_governors_active_and_eligible:
  "(i, g) \<in> set (fst (IterateMaxGovernorsByGovernancePower k ctx cb)) \<Longrightarrow>
     IsActive g \<and> ValidateGovernorMinSelfDelegation k ctx g = Inr True"
  unfolding IterateMaxGovernorsByGovernancePower_def by (rule iterateLoop_calls_eligible)

theorem yielded_governors_active_and_eligible_witness:
  "(1, ex_governor 2 Active 200) \<in>
     set (fst (IterateMaxGovernorsByGovernancePower ex_keeper ex_ctx never_stop)) \<and>
   IsActive (ex_governor 2 Active 200) \<and>
   ValidateGovernorMinSelfDelegation ex_keeper ex_ctx (ex_governor 2 Active 200) = Inr True"
proof -
  have m: "(1, ex_governor 2 Active 200) \<in>
     set (fst (IterateMaxGovernorsByGovernancePower ex_keeper ex_ctx never_stop))"
    by (simp add: ex_run)
  from yielded_governors_active_and_eligible [OF m] m show ?thesis by simp
qed

text \<open>
  C10. An index entry whose address has no governor record is passed over: \<open>GetGovernor\<close>
  answers the zero governor with the found flag unset, the zero governor is not active, the
  loop goes on with the next entry and the same count, and no panic arises from the entry.
  Taking such an entry out of the index leaves the whole iteration unchanged.
\<close>

theorem dangling_entry_skipped:
  assumes "governorStore ctx (snd entry) = None"
  shows "GetGovernor ctx (snd entry) = (Governor_zero, False) \<and> \<not> IsActive Governor_zero \<and>
    iterateLoop k ctx cb maxG tot (entry # rest) = iterateLoop k ctx cb maxG tot rest \<and>
    IterateMaxGovernorsByGovernancePower k
        (ctx\<lparr>governorsByPower := removeAll entry (governorsByPower ctx)\<rparr>) cb =
      IterateMaxGovernorsByGovernancePower k ctx cb"
proof -
  have "iterateLoop k ctx cb (MaxGovernors (params ctx)) 0
      (filter (\<lambda>x. x \<noteq> entry) (KVStoreReversePrefixIterator (governorsByPower ctx))) =
    iterateLoop k ctx cb (MaxGovernors (params ctx)) 0
      (KVStoreReversePrefixIterator (governorsByPower ctx))"
    using assms by (intro iterateLoop_filter) auto
  then show ?thesis
    using assms
    by (simp add: iterateLoop_skip_absent IsActive_zero GetGovernor_def
        IterateMaxGovernorsByGovernancePower_def reverse_iterator_removeAll
        iterateLoop_index_irrelevant del: iterateLoop.simps)
qed

theorem dangling_entry_skipped_witness:
  "governorStore ex_ctx (snd ((250, [7]), [7])) = None \<and>
   GetGovernor ex_ctx [7] = (Governor_zero, False) \<and>
   iterateLoop ex_keeper ex_ctx never_stop 2 0 [((250, [7]), [7])] = ([], None) \<and>
   IterateMaxGovernorsByGovernancePower ex_keeper
       (ex_ctx\<lparr>governorsByPower := removeAll ((250, [7]), [7]) (governorsByPower ex_ctx)\<rparr>)
       never_stop =
     ([(0, ex_governor 1 Active 300), (1, ex_governor 2 Active 200),
       (2, ex_governor 3 Active 100)], None)"
proof -
  have h: "governorStore ex_ctx (snd ((250, [7]), [7])) = None"
    by (simp add: ex_ctx_def)
  from dangling_entry_skipped [OF h, of ex_keeper never_stop 2 0 "[]"] h
  show ?thesis by (simp add: ex_run del: iterateLoop.simps) simp
qed

section \<open>The minimum self-delegation check\<close>

text \<open>
  C3. For an active governor, when the governance delegation looked up under the governor's
  own address is absent, or the governor address it records does not decode to the
  governor's own address, \<open>ValidateGovernorMinSelfDelegation\<close> ends in a panic and returns
  no boolean. When the bonded tokens were computed, the panic is the one of the missing
  self-delegation, or the one of the address decoder on a malformed record.
\<close>

theorem active_without_self_delegation_panics:
  assumes "IsActive governor"
    and "GetGovernanceDelegation ctx (GovernorAddress governor) = None \<or>
         (\<exists>del. GetGovernanceDelegation ctx (GovernorAddress governor) = Some del \<and>
            GovernorAddressFromBech32 k (DelGovernorAddress del) \<noteq> Some (GovernorAddress governor))"
  shows "(\<exists>e. ValidateGovernorMinSelfDelegation k ctx governor = Inl e) \<and>
    (\<forall>b. getGovernorBondedTokens k (GovernorAddress governor) = Inr b \<longrightarrow>
       ValidateGovernorMinSelfDelegation k ctx governor = Inl NoSelfDelegation \<or>
       ValidateGovernorMinSelfDelegation k ctx governor = Inl InvalidBech32)"
  using assms
  by (auto simp: ValidateGovernorMinSelfDelegation_def split: sum.splits option.splits)

theorem active_without_self_delegation_panics_witness:
  "IsActive (ex_governor 12 Active 300) \<and>
   GetGovernanceDelegation ex_ctx (GovernorAddress (ex_governor 12 Active 300)) = None \<and>
   getGovernorBondedTokens ex_keeper (GovernorAddress (ex_governor 12 Active 300)) = Inr 0 \<and>
   ValidateGovernorMinSelfDelegation ex_keeper ex_ctx (ex_governor 12 Active 300) =
     Inl NoSelfDelegation \<and>
   IsActive (ex_governor 13 Active 300) \<and>
   GetGovernanceDelegation ex_ctx (GovernorAddress (ex_governor 13 Active 300)) =
     Some \<lparr>DelegatorAddress = [13], DelGovernorAddress = ''gov1''\<rparr> \<and>
   GovernorAddressFromBech32 ex_keeper ''gov1'' = Some [1] \<and>
   (\<exists>e. ValidateGovernorMinSelfDelegation ex_keeper ex_ctx (ex_governor 13 Active 300) = Inl e)"
proof -
  have a: "IsActive (ex_governor 12 Active 300)" "IsActive (ex_governor 13 Active 300)"
    by (simp_all add: IsActive_def ex_governor_def)
  have n: "GetGovernanceDelegation ex_ctx (GovernorAddress (ex_governor 12 Active 300)) = None"
    by (simp add: GetGovernanceDelegation_def ex_ctx_def ex_governor_def)
  have s: "GetGovernanceDelegation ex_ctx (GovernorAddress (ex_governor 13 Active 300)) =
     Some \<lparr>DelegatorAddress = [13], DelGovernorAddress = ''gov1''\<rparr>"
    by (simp add: GetGovernanceDelegation_def ex_ctx_def ex_governor_def)
  have d: "GovernorAddressFromBech32 ex_keeper ''gov1'' = Some [1]"
    by (simp add: ex_keeper_def)
  have b: "getGovernorBondedTokens ex_keeper (GovernorAddress (ex_governor 12 Active 300)) = Inr 0"
    by (simp add: getGovernorBondedTokens_def ex_keeper_def ex_sk_def ex_governor_def)
  have v: "ValidateGovernorMinSelfDelegation ex_keeper ex_ctx (ex_governor 12 Active 300) \<noteq>
      Inl InvalidBech32"
    by (simp add: ValidateGovernorMinSelfDelegation_def b n a)
  from active_without_self_delegation_panics [of "ex_governor 12 Active 300" ex_ctx ex_keeper]
    a n b v
  have 1: "ValidateGovernorMinSelfDelegation ex_keeper ex_ctx (ex_governor 12 Active 300) =
      Inl NoSelfDelegation"
    by blast
  from active_without_self_delegation_panics [of "ex_governor 13 Active 300" ex_ctx ex_keeper]
    a s d
  have 2: "\<exists>e. ValidateGovernorMinSelfDelegation ex_keeper ex_ctx (ex_governor 13 Active 300) = Inl e"
    by (simp add: ex_governor_def)
  from a n s d b 1 2 show ?thesis by blast
qed

text \<open>
  C6, as the code has it. The bonded tokens are computed before the status is looked at:
  when that computation panics the check panics with it, whatever the status, so the check
  answers a boolean only when the computation returns. When it returns, the check answers
  false for a governor that is not active, and for an active governor whose self-delegation
  record decodes to its own address, with a minimum that parses, it answers true exactly
  when the bonded tokens reach the minimum.
\<close>

theorem validate_decides_on_threshold:
  "(\<forall>e. getGovernorBondedTokens k (GovernorAddress governor) = Inl e \<longrightarrow>
      ValidateGovernorMinSelfDelegation k ctx governor = Inl e) \<and>
   (\<forall>b. ValidateGovernorMinSelfDelegation k ctx governor = Inr b \<longrightarrow>
      (\<exists>t. getGovernorBondedTokens k (GovernorAddress governor) = Inr t)) \<and>
   (\<forall>bondedTokens. getGovernorBondedTokens k (GovernorAddress governor) = Inr bondedTokens \<longrightarrow>
      (\<not> IsActive governor \<longrightarrow> ValidateGovernorMinSelfDelegation k ctx governor = Inr False) \<and>
      (IsActive governor \<and>
       (\<exists>del. GetGovernanceDelegation ctx (GovernorAddress governor) = Some del \<and>
          GovernorAddressFromBech32 k (DelGovernorAddress del) = Some (GovernorAddress governor)) \<and>
       NewIntFromString k (MinGovernorSelfDelegation (params ctx)) = Some threshold \<longrightarrow>
       ValidateGovernorMinSelfDelegation k ctx governor = Inr (threshold \<le> bondedTokens)))"
  by (auto simp: ValidateGovernorMinSelfDelegation_def split: sum.splits option.splits)

theorem validate_decides_on_threshold_witness:
  "getGovernorBondedTokens ex_keeper (GovernorAddress (ex_governor 11 Inactive 0)) =
     Inl DivisionByZero \<and>
   ValidateGovernorMinSelfDelegation ex_keeper ex_ctx (ex_governor 11 Inactive 0) =
     Inl DivisionByZero \<and>
   ValidateGovernorMinSelfDelegation ex_keeper ex_ctx (ex_governor 11 Active 0) =
     Inl DivisionByZero \<and>
   getGovernorBondedTokens ex_keeper (GovernorAddress (ex_governor 1 Active 300)) = Inr 2000 \<and>
   IsActive (ex_governor 1 Active 300) \<and>
   NewIntFromString ex_keeper (MinGovernorSelfDelegation (params ex_ctx)) = Some 1000 \<and>
   ValidateGovernorMinSelfDelegation ex_keeper ex_ctx (ex_governor 1 Active 300) = Inr True \<and>
   getGovernorBondedTokens ex_keeper (GovernorAddress (ex_governor 4 Inactive 400)) = Inr 0 \<and>
   \<not> IsActive (ex_governor 4 Inactive 400) \<and>
   ValidateGovernorMinSelfDelegation ex_keeper ex_ctx (ex_governor 4 Inactive 400) = Inr False"
proof -
  have b11: "getGovernorBondedTokens ex_keeper (GovernorAddress (ex_governor 11 Inactive 0)) =
      Inl DivisionByZero"
    "getGovernorBondedTokens ex_keeper (GovernorAddress (ex_governor 11 Active 0)) =
      Inl DivisionByZero"
    by (code_simp, code_simp)
  have b1: "getGovernorBondedTokens ex_keeper (GovernorAddress (ex_governor 1 Active 300)) = Inr 2000"
    by code_simp
  have b4: "getGovernorBondedTokens ex_keeper (GovernorAddress (ex_governor 4 Inactive 400)) = Inr 0"
    by code_simp
  have a: "IsActive (ex_governor 1 Active 300)" "\<not> IsActive (ex_governor 4 Inactive 400)"
    by (simp_all add: IsActive_def ex_governor_def)
  have d: "GetGovernanceDelegation ex_ctx (GovernorAddress (ex_governor 1 Active 300)) =
      Some \<lparr>DelegatorAddress = [1], DelGovernorAddress = ''gov1''\<rparr>"
    by (simp add: GetGovernanceDelegation_def ex_ctx_def ex_governor_def)
  have g: "GovernorAddressFromBech32 ex_keeper ''gov1'' =
      Some (GovernorAddress (ex_governor 1 Active 300))"
    by (simp add: ex_keeper_def ex_governor_def)
  have m: "NewIntFromString ex_keeper (MinGovernorSelfDelegation (params ex_ctx)) = Some 1000"
    by (simp add: ex_keeper_def ex_ctx_def)
  from validate_decides_on_threshold
    [where k = ex_keeper and ctx = ex_ctx and governor = "ex_governor 11 Inactive 0"] b11
  have z: "ValidateGovernorMinSelfDelegation ex_keeper ex_ctx (ex_governor 11 Inactive 0) =
      Inl DivisionByZero"
    by blast
  from validate_decides_on_threshold
    [where k = ex_keeper and ctx = ex_ctx and governor = "ex_governor 11 Active 0"] b11
  have z': "ValidateGovernorMinSelfDelegation ex_keeper ex_ctx (ex_governor 11 Active 0) =
      Inl DivisionByZero"
    by blast
  from validate_decides_on_threshold
    [where k = ex_keeper and ctx = ex_ctx and governor = "ex_governor 1 Active 300"
      and threshold = 1000] a d g m b1
  have 1: "ValidateGovernorMinSelfDelegation ex_keeper ex_ctx (ex_governor 1 Active 300) = Inr True"
    by simp
  from validate_decides_on_threshold
    [where k = ex_keeper and ctx = ex_ctx and governor = "ex_governor 4 Inactive 400"] a b4
  have 2: "ValidateGovernorMinSelfDelegation ex_keeper ex_ctx (ex_governor 4 Inactive 400) = Inr False"
    by simp
  from b11(1) z z' b1 a(1) m 1 b4 a(2) 2 show ?thesis by (intro conjI)
qed

text \<open>
  C6 as stated fails: governor 11 is not active, and its one delegation is to a validator
  without delegator shares. The bonded tokens are computed first, the division panics, and
  the check does not return false.
\<close>

theorem inactive_governor_not_false_counterexample:
  "\<not> IsActive (ex_governor 11 Inactive 0) \<and>
   ValidateGovernorMinSelfDelegation ex_keeper ex_ctx (ex_governor 11 Inactive 0) =
     Inl DivisionByZero \<and>
   ValidateGovernorMinSelfDelegation ex_keeper ex_ctx (ex_governor 11 Inactive 0) \<noteq> Inr False"
proof -
  have "ValidateGovernorMinSelfDelegation ex_keeper ex_ctx (ex_governor 11 Inactive 0) =
     Inl DivisionByZero"
    by code_simp
  then show ?thesis by (simp add: IsActive_def ex_governor_def)
qed

text \<open>
  C9, as the code has it. The flag of \<open>NewIntFromString\<close> is dropped, the sign of the
  parsed integer is never tested, and no configuration error is raised. The bonded tokens
  are computed first, and a panic in that computation is the outcome of the check. With a
  minimum that does not parse the check never answers true; once the bonded tokens are
  computed it answers false for a governor that is not active, with no sign of the
  failure, and for an active governor with its self-delegation in place it panics when the
  bonded tokens are compared with the missing integer; for an active governor it panics
  in every case. So over such a minimum the iteration hands no governor to the callback,
  and it ends in a panic as soon as the index holds an entry of an active governor. A
  minimum that parses, negative or not, is the threshold of the comparison.
\<close>

theorem minimum_self_delegation_unchecked:
  "(NewIntFromString k (MinGovernorSelfDelegation (params ctx)) = None \<longrightarrow>
      ValidateGovernorMinSelfDelegation k ctx governor \<noteq> Inr True \<and>
      (\<forall>e. getGovernorBondedTokens k (GovernorAddress governor) = Inl e \<longrightarrow>
         ValidateGovernorMinSelfDelegation k ctx governor = Inl e) \<and>
      (\<forall>b. \<not> IsActive governor \<and> getGovernorBondedTokens k (GovernorAddress governor) = Inr b \<longrightarrow>
         ValidateGovernorMinSelfDelegation k ctx governor = Inr False) \<and>
      (\<forall>b. IsActive governor \<and> getGovernorBondedTokens k (GovernorAddress governor) = Inr b \<and>
         (\<exists>del. GetGovernanceDelegation ctx (GovernorAddress governor) = Some del \<and>
            GovernorAddressFromBech32 k (DelGovernorAddress del) = Some (GovernorAddress governor)) \<longrightarrow>
         ValidateGovernorMinSelfDelegation k ctx governor = Inl NilDereference) \<and>
      (IsActive governor \<longrightarrow> (\<exists>e. ValidateGovernorMinSelfDelegation k ctx governor = Inl e)) \<and>
      fst (IterateMaxGovernorsByGovernancePower k ctx cb) = [] \<and>
      ((\<exists>entry \<in> set (governorsByPower ctx). IsActive (entryGovernor ctx entry)) \<longrightarrow>
         (\<exists>e. IterateMaxGovernorsByGovernancePower k ctx cb = ([], Some e)))) \<and>
   (\<forall>m b. NewIntFromString k (MinGovernorSelfDelegation (params ctx)) = Some m \<and>
      IsActive governor \<and> getGovernorBondedTokens k (GovernorAddress governor) = Inr b \<and>
      (\<exists>del. GetGovernanceDelegation ctx (GovernorAddress governor) = Some del \<and>
         GovernorAddressFromBech32 k (DelGovernorAddress del) = Some (GovernorAddress governor)) \<longrightarrow>
      ValidateGovernorMinSelfDelegation k ctx governor = Inr (m \<le> b))"
proof -
  have A: "ValidateGovernorMinSelfDelegation k ctx governor \<noteq> Inr True \<and>
      (\<forall>e. getGovernorBondedTokens k (GovernorAddress governor) = Inl e \<longrightarrow>
         ValidateGovernorMinSelfDelegation k ctx governor = Inl e) \<and>
      (\<forall>b. \<not> IsActive governor \<and> getGovernorBondedTokens k (GovernorAddress governor) = Inr b \<longrightarrow>
         ValidateGovernorMinSelfDelegation k ctx governor = Inr False) \<and>
      (\<forall>b. IsActive governor \<and> getGovernorBondedTokens k (GovernorAddress governor) = Inr b \<and>
         (\<exists>del. GetGovernanceDelegation ctx (GovernorAddress governor) = Some del \<and>
            GovernorAddressFromBech32 k (DelGovernorAddress del) = Some (GovernorAddress governor)) \<longrightarrow>
         ValidateGovernorMinSelfDelegation k ctx governor = Inl NilDereference)"
    if "NewIntFromString k (MinGovernorSelfDelegation (params ctx)) = None"
    using that
    by (auto simp: ValidateGovernorMinSelfDelegation_def split: sum.splits option.splits)
  have B: "IsActive governor \<longrightarrow> (\<exists>e. ValidateGovernorMinSelfDelegation k ctx governor = Inl e)"
    if "NewIntFromString k (MinGovernorSelfDelegation (params ctx)) = None"
    using validate_unparsable_active_panics [OF that] by blast
  have C: "fst (IterateMaxGovernorsByGovernancePower k ctx cb) = []"
    if "NewIntFromString k (MinGovernorSelfDelegation (params ctx)) = None"
    unfolding IterateMaxGovernorsByGovernancePower_def using that by (rule iterateLoop_unparsable)
  have D: "(\<exists>entry \<in> set (governorsByPower ctx). IsActive (entryGovernor ctx entry)) \<longrightarrow>
         (\<exists>e. IterateMaxGovernorsByGovernancePower k ctx cb = ([], Some e))"
    if "NewIntFromString k (MinGovernorSelfDelegation (params ctx)) = None"
  proof
    assume "\<exists>entry \<in> set (governorsByPower ctx). IsActive (entryGovernor ctx entry)"
    then have "\<exists>entry \<in> set (KVStoreReversePrefixIterator (governorsByPower ctx)).
        IsActive (entryGovernor ctx entry)"
      by (simp add: KVStoreReversePrefixIterator_def)
    then show "\<exists>e. IterateMaxGovernorsByGovernancePower k ctx cb = ([], Some e)"
      unfolding IterateMaxGovernorsByGovernancePower_def
      by (intro iterateLoop_unparsable_aborts [OF that]) simp_all
  qed
  have E: "\<forall>m b. NewIntFromString k (MinGovernorSelfDelegation (params ctx)) = Some m \<and>
      IsActive governor \<and> getGovernorBondedTokens k (GovernorAddress governor) = Inr b \<and>
      (\<exists>del. GetGovernanceDelegation ctx (GovernorAddress governor) = Some del \<and>
         GovernorAddressFromBech32 k (DelGovernorAddress del) = Some (GovernorAddress governor)) \<longrightarrow>
      ValidateGovernorMinSelfDelegation k ctx governor = Inr (m \<le> b)"
    by (auto simp: ValidateGovernorMinSelfDelegation_def split: sum.splits option.splits)
  from A B C D E show ?thesis by blast
qed

theorem minimum_self_delegation_unchecked_witness:
  "NewIntFromString ex_keeper (MinGovernorSelfDelegation (params ex_ctx_malformed)) = None \<and>
   IsActive (ex_governor 1 Active 300) \<and>
   getGovernorBondedTokens ex_keeper (GovernorAddress (ex_governor 1 Active 300)) = Inr 2000 \<and>
   ValidateGovernorMinSelfDelegation ex_keeper ex_ctx_malformed (ex_governor 1 Active 300) =
     Inl NilDereference \<and>
   ValidateGovernorMinSelfDelegation ex_keeper ex_ctx_malformed (ex_governor 11 Inactive 0) =
     Inl DivisionByZero \<and>
   fst (IterateMaxGovernorsByGovernancePower ex_keeper ex_ctx_malformed never_stop) = [] \<and>
   (\<exists>e. IterateMaxGovernorsByGovernancePower ex_keeper ex_ctx_malformed never_stop =
      ([], Some e)) \<and>
   NewIntFromString ex_keeper_signed (MinGovernorSelfDelegation (params ex_ctx_negative)) =
     Some (- 5) \<and>
   ValidateGovernorMinSelfDelegation ex_keeper_signed ex_ctx_negative (ex_governor 1 Active 300) =
     Inr True"
proof -
  have m: "NewIntFromString ex_keeper (MinGovernorSelfDelegation (params ex_ctx_malformed)) = None"
    by (simp add: ex_keeper_def ex_ctx_malformed_def)
  have b1: "getGovernorBondedTokens ex_keeper (GovernorAddress (ex_governor 1 Active 300)) = Inr 2000"
    by code_simp
  have b11: "getGovernorBondedTokens ex_keeper (GovernorAddress (ex_governor 11 Inactive 0)) =
      Inl DivisionByZero"
    by code_simp
  have a: "IsActive (ex_governor 1 Active 300)"
    by (simp add: IsActive_def ex_governor_def)
  have d: "GetGovernanceDelegation ex_ctx_malformed (GovernorAddress (ex_governor 1 Active 300)) =
      Some \<lparr>DelegatorAddress = [1], DelGovernorAddress = ''gov1''\<rparr>"
    by (simp add: GetGovernanceDelegation_def ex_ctx_malformed_def ex_ctx_def ex_governor_def)
  have g: "GovernorAddressFromBech32 ex_keeper ''gov1'' =
      Some (GovernorAddress (ex_governor 1 Active 300))"
    by (simp add: ex_keeper_def ex_governor_def)
  have idx: "((300, [1]), [1]) \<in> set (governorsByPower ex_ctx_malformed)"
    "IsActive (entryGovernor ex_ctx_malformed ((300, [1]), [1]))"
    by (simp_all add: ex_ctx_malformed_def ex_ctx_def entryGovernor_def GetGovernor_def
        IsActive_def ex_governor_def)
  note r1 = minimum_self_delegation_unchecked
    [where k = ex_keeper and ctx = ex_ctx_malformed and governor = "ex_governor 1 Active 300"
      and cb = never_stop, THEN conjunct1, rule_format, OF m]
  have 1: "ValidateGovernorMinSelfDelegation ex_keeper ex_ctx_malformed (ex_governor 1 Active 300) =
      Inl NilDereference"
    using r1 a b1 d g by simp
  have 2: "fst (IterateMaxGovernorsByGovernancePower ex_keeper ex_ctx_malformed never_stop) = []"
    using r1 by blast
  have 3: "\<exists>e. IterateMaxGovernorsByGovernancePower ex_keeper ex_ctx_malformed never_stop =
      ([], Some e)"
    using r1 idx by blast
  note r11 = minimum_self_delegation_unchecked
    [where k = ex_keeper and ctx = ex_ctx_malformed and governor = "ex_governor 11 Inactive 0"
      and cb = never_stop, THEN conjunct1, rule_format, OF m]
  have 4: "ValidateGovernorMinSelfDelegation ex_keeper ex_ctx_malformed (ex_governor 11 Inactive 0) =
      Inl DivisionByZero"
    using r11 b11 by blast
  have m': "NewIntFromString ex_keeper_signed (MinGovernorSelfDelegation (params ex_ctx_negative)) =
      Some (- 5)"
    by (simp add: ex_keeper_signed_def ex_ctx_negative_def)
  have b1': "getGovernorBondedTokens ex_keeper_signed (GovernorAddress (ex_governor 1 Active 300)) =
      Inr 2000"
    by code_simp
  have d': "GetGovernanceDelegation ex_ctx_negative (GovernorAddress (ex_governor 1 Active 300)) =
      Some \<lparr>DelegatorAddress = [1], DelGovernorAddress = ''gov1''\<rparr>"
    by (simp add: GetGovernanceDelegation_def ex_ctx_negative_def ex_ctx_def ex_governor_def)
  have g': "GovernorAddressFromBech32 ex_keeper_signed ''gov1'' =
      Some (GovernorAddress (ex_governor 1 Active 300))"
    by (simp add: ex_keeper_signed_def ex_keeper_def ex_governor_def)
  from minimum_self_delegation_unchecked
    [where k = ex_keeper_signed and ctx = ex_ctx_negative
      and governor = "ex_governor 1 Active 300", THEN conjunct2, rule_format, of "- 5" 2000]
    m' a b1' d' g'
  have 5: "ValidateGovernorMinSelfDelegation ex_keeper_signed ex_ctx_negative
      (ex_governor 1 Active 300) = Inr True"
    by simp
  from m a b1 1 4 2 3 m' 5 show ?thesis by (intro conjI)
qed

text \<open>
  C9 as stated fails: with a minimum that does not parse, the check on the inactive
  governor 4 returns false as it would with any other minimum; no error comes out of it.
  And the minimum \<open>"-5"\<close>, which is no non-negative integer, is taken as the threshold:
  the check on governor 1 returns true.
\<close>

theorem unparsable_minimum_ignored_counterexample:
  "NewIntFromString ex_keeper (MinGovernorSelfDelegation (params ex_ctx_malformed)) = None \<and>
   ValidateGovernorMinSelfDelegation ex_keeper ex_ctx_malformed (ex_governor 4 Inactive 400) =
     Inr False \<and>
   NewIntFromString ex_keeper_signed (MinGovernorSelfDelegation (params ex_ctx_negative)) =
     Some (- 5) \<and>
   ValidateGovernorMinSelfDelegation ex_keeper_signed ex_ctx_negative (ex_governor 1 Active 300) =
     Inr True"
proof -
  have 1: "ValidateGovernorMinSelfDelegation ex_keeper ex_ctx_malformed (ex_governor 4 Inactive 400) =
     Inr False"
    by code_simp
  have 2: "ValidateGovernorMinSelfDelegation ex_keeper_signed ex_ctx_negative
      (ex_governor 1 Active 300) = Inr True"
    by code_simp
  from 1 2 show ?thesis
    by (simp add: ex_keeper_def ex_ctx_malformed_def ex_keeper_signed_def ex_ctx_negative_def)
qed

section \<open>Bonded tokens\<close>

text \<open>
  C8, as the code has it. The quotient by the validator's delegator shares is taken without
  a test for zero. A delegation to a validator whose delegator shares are zero makes its
  step panic with a division by zero, and the bonded tokens of a governor that has such a
  delegation are never returned.
\<close>

theorem zero_delegator_shares_panics:
  assumes "d \<in> set (Delegations (sk k) govAddr)"
    and "Validators (sk k) (ValidatorAddr d) = Some validator"
    and "DelegatorShares validator = 0"
  shows "delegationBondedTokens (sk k) d = Inl DivisionByZero \<and>
    (\<exists>e. getGovernorBondedTokens k govAddr = Inl e)"
proof -
  have "delegationBondedTokens (sk k) d = Inl DivisionByZero"
    using assms by (simp add: delegationBondedTokens_def Dec_Quo_def)
  then show ?thesis
    using assms(1) iterateDelegations_panics [of d _ "sk k" DivisionByZero 0]
    by (simp add: getGovernorBondedTokens_def)
qed

theorem zero_delegator_shares_panics_witness:
  "\<lparr>ValidatorAddr = [10], Shares = 1000000000000000000\<rparr> \<in> set (Delegations (sk ex_keeper) [11]) \<and>
   Validators (sk ex_keeper) [10] = Some \<lparr>BondedTokens = 0, DelegatorShares = 0\<rparr> \<and>
   delegationBondedTokens (sk ex_keeper) \<lparr>ValidatorAddr = [10], Shares = 1000000000000000000\<rparr> =
     Inl DivisionByZero \<and>
   (\<exists>e. getGovernorBondedTokens ex_keeper [11] = Inl e)"
proof -
  have 1: "\<lparr>ValidatorAddr = [10], Shares = 1000000000000000000\<rparr> \<in>
      set (Delegations (sk ex_keeper) [11])"
    by (simp add: ex_keeper_def ex_sk_def)
  have 2: "Validators (sk ex_keeper)
      (ValidatorAddr \<lparr>ValidatorAddr = [10], Shares = 1000000000000000000\<rparr>) =
      Some \<lparr>BondedTokens = 0, DelegatorShares = 0\<rparr>"
    by (simp add: ex_keeper_def ex_sk_def)
  from zero_delegator_shares_panics [OF 1 2] 1 2 show ?thesis by simp
qed

text \<open>
  C8 as stated fails: governor 11 delegates one share to a validator without delegator
  shares; the computation of its bonded tokens panics and yields no total, where the claim
  has it return with a contribution of zero.
\<close>

theorem zero_delegator_shares_counterexample:
  "Validators (sk ex_keeper) [10] = Some \<lparr>BondedTokens = 0, DelegatorShares = 0\<rparr> \<and>
   Delegations (sk ex_keeper) [11] = [\<lparr>ValidatorAddr = [10], Shares = 1000000000000000000\<rparr>] \<and>
   getGovernorBondedTokens ex_keeper [11] = Inl DivisionByZero \<and>
   getGovernorBondedTokens ex_keeper [11] \<noteq> Inr 0"
proof -
  have "getGovernorBondedTokens ex_keeper [11] = Inl DivisionByZero"
    by code_simp
  then show ?thesis by (simp add: ex_keeper_def ex_sk_def)
qed

text \<open>
  C5, as the code has it. When every delegation of the governor is to a known validator with
  positive delegator shares, and shares and bonded tokens are not negative, the bonded
  tokens are the sum of one integer per delegation; the truncation is taken per term. The
  quotient of a term is a decimal of 18 digits, rounded at the last digit to the nearest,
  before it is truncated. So each term is the exact quotient truncated, plus one exactly
  when the exact quotient lies within half a unit of the 18th digit below the next
  integer: its first 18 fractional digits are all nines and the digits after them make at
  least one half. When no term is of that kind the total is the specification's sum.
\<close>

theorem bonded_tokens_sum_of_rounded_terms:
  assumes "\<forall>d \<in> set (Delegations (sk k) govAddr).
      \<exists>v. Validators (sk k) (ValidatorAddr d) = Some v \<and>
        0 < DelegatorShares v \<and> 0 \<le> BondedTokens v \<and> 0 \<le> Shares d"
  shows "getGovernorBondedTokens k govAddr =
      Inr (sum_list (map (\<lambda>d. rounded_delegationTokens (the (Validators (sk k) (ValidatorAddr d))) d)
        (Delegations (sk k) govAddr))) \<and>
    (\<forall>d \<in> set (Delegations (sk k) govAddr).
       delegationBondedTokens (sk k) d =
         Inr (rounded_delegationTokens (the (Validators (sk k) (ValidatorAddr d))) d)) \<and>
    ((\<forall>d \<in> set (Delegations (sk k) govAddr).
         \<not> roundsUp (the (Validators (sk k) (ValidatorAddr d))) d) \<longrightarrow>
      getGovernorBondedTokens k govAddr = Inr (spec_bondedTokens (sk k) govAddr))"
proof -
  let ?ds = "Delegations (sk k) govAddr"
  let ?f = "\<lambda>d. rounded_delegationTokens (the (Validators (sk k) (ValidatorAddr d))) d"
  have terms: "\<forall>d \<in> set ?ds. delegationBondedTokens (sk k) d = Inr (?f d)"
  proof
    fix d assume "d \<in> set ?ds"
    then obtain v where "Validators (sk k) (ValidatorAddr d) = Some v"
      "0 < DelegatorShares v" "0 \<le> BondedTokens v" "0 \<le> Shares d"
      using assms by blast
    then show "delegationBondedTokens (sk k) d = Inr (?f d)"
      using delegation_term_exact [of "sk k" d v] by simp
  qed
  have run: "getGovernorBondedTokens k govAddr = Inr (sum_list (map ?f ?ds))"
    using iterateDelegations_map [OF terms, of 0] by (simp add: getGovernorBondedTokens_def)
  have "sum_list (map ?f ?ds) = spec_bondedTokens (sk k) govAddr"
    if "\<forall>d \<in> set ?ds. \<not> roundsUp (the (Validators (sk k) (ValidatorAddr d))) d"
    unfolding spec_bondedTokens_def using that
    by (intro arg_cong [where f = sum_list] map_cong) (simp_all add: rounded_delegationTokens_def)
  then have exact: "(\<forall>d \<in> set ?ds. \<not> roundsUp (the (Validators (sk k) (ValidatorAddr d))) d) \<longrightarrow>
      getGovernorBondedTokens k govAddr = Inr (spec_bondedTokens (sk k) govAddr)"
    using run by simp
  from run terms exact show ?thesis by (intro conjI)
qed

theorem bonded_tokens_sum_of_rounded_terms_witness:
  "Delegations (sk ex_keeper_rounding) [14] =
     [\<lparr>ValidatorAddr = [9], Shares = 1000500000000000000000\<rparr>,
      \<lparr>ValidatorAddr = [8], Shares = 2999999999999999999\<rparr>,
      \<lparr>ValidatorAddr = [16], Shares = 9999999999999999994\<rparr>,
      \<lparr>ValidatorAddr = [16], Shares = 9999999999999999995\<rparr>,
      \<lparr>ValidatorAddr = [17], Shares = 1000000000000000000\<rparr>] \<and>
   map (delegationBondedTokens (sk ex_keeper_rounding)) (Delegations (sk ex_keeper_rounding) [14]) =
     [Inr 2001, Inr 1, Inr 0, Inr 1, Inr 2] \<and>
   getGovernorBondedTokens ex_keeper_rounding [14] = Inr 2005 \<and>
   spec_bondedTokens (sk ex_keeper_rounding) [14] = 2003"
proof -
  let ?k = ex_keeper_rounding
  have s: "sk ?k = ex_sk_rounding"
    by (simp add: ex_keeper_rounding_def)
  have ds: "Delegations (sk ?k) [14] =
     [\<lparr>ValidatorAddr = [9], Shares = 1000500000000000000000\<rparr>,
      \<lparr>ValidatorAddr = [8], Shares = 2999999999999999999\<rparr>,
      \<lparr>ValidatorAddr = [16], Shares = 9999999999999999994\<rparr>,
      \<lparr>ValidatorAddr = [16], Shares = 9999999999999999995\<rparr>,
      \<lparr>ValidatorAddr = [17], Shares = 1000000000000000000\<rparr>]"
    by (simp add: s ex_sk_rounding_def)
  have h: "\<forall>d \<in> set (Delegations (sk ?k) [14]).
      \<exists>v. Validators (sk ?k) (ValidatorAddr d) = Some v \<and>
        0 < DelegatorShares v \<and> 0 \<le> BondedTokens v \<and> 0 \<le> Shares d"
    unfolding ds by (simp add: s ex_sk_rounding_def)
  note r = bonded_tokens_sum_of_rounded_terms [OF h]
  have vals: "map (\<lambda>d. rounded_delegationTokens (the (Validators (sk ?k) (ValidatorAddr d))) d)
      (Delegations (sk ?k) [14]) = [2001, 1, 0, 1, 2]"
    unfolding ds
    by (simp add: s ex_sk_rounding_def rounded_delegationTokens_def roundsUp_def
        quotientFraction_def quotientRemainder_def spec_delegationTokens_def precisionReuse_def
        signed_divide_int_def)
  have total: "getGovernorBondedTokens ?k [14] = Inr 2005"
    using r [THEN conjunct1] unfolding vals by simp
  have each: "map (delegationBondedTokens (sk ?k)) (Delegations (sk ?k) [14]) =
      map (\<lambda>d. Inr (rounded_delegationTokens (the (Validators (sk ?k) (ValidatorAddr d))) d))
        (Delegations (sk ?k) [14])"
    using r [THEN conjunct2, THEN conjunct1] by (intro map_cong) auto
  have "map (\<lambda>d. Inr (rounded_delegationTokens (the (Validators (sk ?k) (ValidatorAddr d))) d))
        (Delegations (sk ?k) [14]) =
      map Inr (map (\<lambda>d. rounded_delegationTokens (the (Validators (sk ?k) (ValidatorAddr d))) d)
        (Delegations (sk ?k) [14]))"
    by simp
  then have each': "map (delegationBondedTokens (sk ?k)) (Delegations (sk ?k) [14]) =
      [Inr 2001, Inr 1, Inr 0, Inr 1, Inr 2]"
    unfolding each vals by simp
  have sp: "spec_bondedTokens (sk ?k) [14] = 2003"
    unfolding spec_bondedTokens_def ds
    by (simp add: s ex_sk_rounding_def spec_delegationTokens_def signed_divide_int_def)
  from ds each' total sp show ?thesis by (intro conjI)
qed

text \<open>
  C5 as stated fails: governor 6 holds 2.999999999999999999 shares of a validator that has
  one bonded token for 3 shares. The exact quotient is below one and truncates to zero; the
  code's quotient rounds to one at the 18th digit and the governor's bonded tokens are one.
\<close>

theorem bonded_tokens_rounding_counterexample:
  "getGovernorBondedTokens ex_keeper [6] = Inr 1 \<and> spec_bondedTokens (sk ex_keeper) [6] = 0"
proof -
  have 1: "getGovernorBondedTokens ex_keeper [6] = Inr 1"
    by code_simp
  have 2: "spec_bondedTokens (sk ex_keeper) [6] = 0"
    by (simp add: spec_bondedTokens_def spec_delegationTokens_def ex_keeper_def ex_sk_def
        signed_divide_int_def)
  from 1 2 show ?thesis by simp
qed

section \<open>The power index\<close>

text \<open>
  C7. \<open>UpdateGovernorByPowerIndex\<close> reads the record stored under the governor's address,
  deletes the index entry keyed by that record's voting power, sets the entry keyed by the
  new voting power and then stores the governor, in this order. When the index holds exactly
  one entry for the governor, the one keyed by the stored voting power, it holds exactly
  one entry for the governor afterwards, keyed by the new voting power, and the stored
  record is the new one. Keys stay distinct, the records of other governors are untouched,
  and in an index whose keys carry the address they store the entries of other governors
  are untouched too.
\<close>

theorem update_keeps_one_index_entry:
  assumes dist: "distinct (map fst (governorsByPower ctx))"
    and old: "governorStore ctx (GovernorAddress governor) = Some oldGovernor"
    and addr: "GovernorAddress oldGovernor = GovernorAddress governor"
    and one: "indexEntriesOf ctx (GovernorAddress governor) =
        [(GovernorsByPowerKey (GovernorAddress governor) (VotingPower oldGovernor),
          GovernorAddress governor)]"
  shows "UpdateGovernorByPowerIndex ctx governor =
      SetGovernor
        (SetGovernorByPowerIndex (DeleteGovernorByPowerIndex ctx oldGovernor) governor) governor \<and>
    indexEntriesOf (UpdateGovernorByPowerIndex ctx governor) (GovernorAddress governor) =
      [(GovernorsByPowerKey (GovernorAddress governor) (VotingPower governor),
        GovernorAddress governor)] \<and>
    governorStore (UpdateGovernorByPowerIndex ctx governor) (GovernorAddress governor) =
      Some governor \<and>
    distinct (map fst (governorsByPower (UpdateGovernorByPowerIndex ctx governor))) \<and>
    (\<forall>a. a \<noteq> GovernorAddress governor \<longrightarrow>
       governorStore (UpdateGovernorByPowerIndex ctx governor) a = governorStore ctx a) \<and>
    ((\<forall>entry \<in> set (governorsByPower ctx). snd (fst entry) = snd entry) \<longrightarrow>
       (\<forall>a. a \<noteq> GovernorAddress governor \<longrightarrow>
          indexEntriesOf (UpdateGovernorByPowerIndex ctx governor) a = indexEntriesOf ctx a))"
proof -
  let ?addr = "GovernorAddress governor"
  let ?kold = "GovernorsByPowerKey (GovernorAddress oldGovernor) (VotingPower oldGovernor)"
  let ?knew = "GovernorsByPowerKey ?addr (VotingPower governor)"
  let ?idx = "governorsByPower ctx"
  let ?idx1 = "AList.delete ?kold ?idx"
  let ?idx2 = "AList.update ?knew ?addr ?idx1"
  have upd: "UpdateGovernorByPowerIndex ctx governor =
      SetGovernor
        (SetGovernorByPowerIndex (DeleteGovernorByPowerIndex ctx oldGovernor) governor) governor"
    using old by (simp add: UpdateGovernorByPowerIndex_def GetGovernor_def)
  have idx': "governorsByPower (UpdateGovernorByPowerIndex ctx governor) = ?idx2"
    by (simp add: upd SetGovernor_def SetGovernorByPowerIndex_def DeleteGovernorByPowerIndex_def)
  have store': "governorStore (UpdateGovernorByPowerIndex ctx governor) =
      (governorStore ctx)(?addr \<mapsto> governor)"
    by (simp add: upd SetGovernor_def SetGovernorByPowerIndex_def DeleteGovernorByPowerIndex_def)
  have none: "filter (\<lambda>e. snd e = ?addr) ?idx1 = []"
    using one by (simp add: filter_value_delete indexEntriesOf_def addr)
  have own: "filter (\<lambda>e. snd e = ?addr) ?idx2 = [(?knew, ?addr)]"
    using none by (rule filter_value_update_fresh)
  have dist': "distinct (map fst ?idx2)"
    using dist by (simp add: distinct_update distinct_delete)
  have frame: "filter (\<lambda>e. snd e = a) ?idx2 = filter (\<lambda>e. snd e = a) ?idx"
    if cons: "\<forall>entry \<in> set ?idx. snd (fst entry) = snd entry" and a: "a \<noteq> ?addr" for a
  proof -
    have 1: "\<forall>e \<in> set ?idx. fst e = ?kold \<longrightarrow> snd e \<noteq> a"
      using cons a by (auto simp: GovernorsByPowerKey_def addr)
    have sub: "set ?idx1 \<subseteq> set ?idx"
      by (auto simp: AList.delete_eq)
    have 2: "\<forall>e \<in> set ?idx1. fst e = ?knew \<longrightarrow> snd e \<noteq> a"
    proof (intro ballI impI)
      fix e assume e: "e \<in> set ?idx1" "fst e = ?knew"
      then have "snd (fst e) = snd e" using cons sub by blast
      with e(2) a show "snd e \<noteq> a" by (simp add: GovernorsByPowerKey_def)
    qed
    show ?thesis
      using filter_value_update_other [OF a 2] filter_value_delete_other [OF 1] by simp
  qed
  have c2: "indexEntriesOf (UpdateGovernorByPowerIndex ctx governor) ?addr = [(?knew, ?addr)]"
    using own by (simp add: indexEntriesOf_def idx')
  have c3: "governorStore (UpdateGovernorByPowerIndex ctx governor) ?addr = Some governor"
    by (simp add: store')
  have c4: "distinct (map fst (governorsByPower (UpdateGovernorByPowerIndex ctx governor)))"
    using dist' by (simp add: idx')
  have c5: "\<forall>a. a \<noteq> ?addr \<longrightarrow>
      governorStore (UpdateGovernorByPowerIndex ctx governor) a = governorStore ctx a"
    by (simp add: store')
  have c6: "(\<forall>entry \<in> set ?idx. snd (fst entry) = snd entry) \<longrightarrow>
      (\<forall>a. a \<noteq> ?addr \<longrightarrow>
         indexEntriesOf (UpdateGovernorByPowerIndex ctx governor) a = indexEntriesOf ctx a)"
    using frame by (simp add: indexEntriesOf_def idx')
  from upd c2 c3 c4 c5 c6 show ?thesis by (intro conjI)
qed

theorem update_keeps_one_index_entry_witness:
  "distinct (map fst (governorsByPower ex_ctx)) \<and>
   governorStore ex_ctx [1] = Some (ex_governor 1 Active 300) \<and>
   indexEntriesOf ex_ctx [1] = [((300, [1]), [1])] \<and>
   indexEntriesOf (UpdateGovernorByPowerIndex ex_ctx (ex_governor 1 Active 350)) [1] =
     [((350, [1]), [1])] \<and>
   length (indexEntriesOf (UpdateGovernorByPowerIndex ex_ctx (ex_governor 1 Active 350)) [1]) = 1 \<and>
   governorStore (UpdateGovernorByPowerIndex ex_ctx (ex_governor 1 Active 350)) [1] =
     Some (ex_governor 1 Active 350)"
proof -
  have d: "distinct (map fst (governorsByPower ex_ctx))"
    by (simp add: ex_ctx_def)
  have o: "governorStore ex_ctx (GovernorAddress (ex_governor 1 Active 350)) =
      Some (ex_governor 1 Active 300)"
    by (simp add: ex_ctx_def ex_governor_def)
  have e: "GovernorAddress (ex_governor 1 Active 300) = GovernorAddress (ex_governor 1 Active 350)"
    by (simp add: ex_governor_def)
  have i: "indexEntriesOf ex_ctx (GovernorAddress (ex_governor 1 Active 350)) =
      [(GovernorsByPowerKey (GovernorAddress (ex_governor 1 Active 350))
          (VotingPower (ex_governor 1 Active 300)),
        GovernorAddress (ex_governor 1 Active 350))]"
    by (simp add: indexEntriesOf_def ex_ctx_def ex_governor_def GovernorsByPowerKey_def)
  have a: "GovernorAddress (ex_governor 1 Active 350) = [1]"
    "VotingPower (ex_governor 1 Active 300) = 300" "VotingPower (ex_governor 1 Active 350) = 350"
    by (simp_all add: ex_governor_def)
  note r = update_keeps_one_index_entry [OF d o e i]
  have c2: "indexEntriesOf (UpdateGovernorByPowerIndex ex_ctx (ex_governor 1 Active 350)) [1] =
      [((350, [1]), [1])]"
    using r [THEN conjunct2, THEN conjunct1] unfolding a GovernorsByPowerKey_def .
  have c3: "governorStore (UpdateGovernorByPowerIndex ex_ctx (ex_governor 1 Active 350)) [1] =
      Some (ex_governor 1 Active 350)"
    using r [THEN conjunct2, THEN conjunct2, THEN conjunct1] unfolding a .
  have o': "governorStore ex_ctx [1] = Some (ex_governor 1 Active 300)"
    using o unfolding a .
  have i': "indexEntriesOf ex_ctx [1] = [((300, [1]), [1])]"
    using i unfolding a GovernorsByPowerKey_def .
  from d o' i' c2 c3 show ?thesis by (simp del: One_nat_def)
qed

section \<open>The cap on the number of governors\<close>

text \<open>
  C4, as the code has it. The loop tests the running count against \<open>MaxGovernors\<close> with \<open>\<le>\<close> before it looks
  at an entry, and raises the count only after the callback has been called. In a store of
  fewer than \<open>2^64\<close> index entries the callback is therefore never called more than
  \<open>MaxGovernors + 1\<close> times. When the callback never asks to stop, and the descending walk of
  the index starts with a stretch \<open>pre\<close> that holds \<open>MaxGovernors + 1\<close> entries of active
  governors passing the self-delegation check, none of whose active governors makes the
  check panic, the callback is called exactly \<open>MaxGovernors + 1\<close> times: on the governors of
  these entries, numbered from 0, in the order of the walk, which is by descending key
  (voting power, then address). Every index of at least \<open>MaxGovernors + 1\<close> such entries has
  such a stretch.
\<close>

theorem cap_admits_one_more:
  assumes size: "length (governorsByPower ctx) < 2 ^ 64"
  shows "length (fst (IterateMaxGovernorsByGovernancePower k ctx cb)) \<le>
      unat (MaxGovernors (params ctx)) + 1 \<and>
    ((\<forall>i g. \<not> cb i g) \<and>
     KVStoreReversePrefixIterator (governorsByPower ctx) = pre @ post \<and>
     length (filter (entryEligible k ctx) pre) = unat (MaxGovernors (params ctx)) + 1 \<and>
     (\<forall>e \<in> set pre. IsActive (entryGovernor ctx e) \<longrightarrow>
        (\<exists>b. ValidateGovernorMinSelfDelegation k ctx (entryGovernor ctx e) = Inr b)) \<longrightarrow>
     IterateMaxGovernorsByGovernancePower k ctx cb =
       (numbered 0 (map (entryGovernor ctx) (filter (entryEligible k ctx) pre)), None) \<and>
     length (fst (IterateMaxGovernorsByGovernancePower k ctx cb)) =
       unat (MaxGovernors (params ctx)) + 1 \<and>
     sorted_wrt (\<lambda>a b. fst b \<le> fst a) (filter (entryEligible k ctx) pre))"
proof -
  let ?maxG = "MaxGovernors (params ctx)"
  let ?walk = "KVStoreReversePrefixIterator (governorsByPower ctx)"
  have len: "length ?walk < 2 ^ 64"
    using size by (simp add: KVStoreReversePrefixIterator_def)
  have bound: "length (fst (IterateMaxGovernorsByGovernancePower k ctx cb)) \<le> unat ?maxG + 1"
  proof (cases "unat ?maxG + 1 < 2 ^ 64")
    case True
    from iterateLoop_length_cap [OF True, of k ctx cb 0 ?walk]
    show ?thesis by (simp add: IterateMaxGovernorsByGovernancePower_def)
  next
    case False
    have "length (fst (IterateMaxGovernorsByGovernancePower k ctx cb)) \<le> length ?walk"
      unfolding IterateMaxGovernorsByGovernancePower_def by (rule iterateLoop_length_entries)
    with len False show ?thesis by simp
  qed
  have full: "IterateMaxGovernorsByGovernancePower k ctx cb =
       (numbered 0 (map (entryGovernor ctx) (filter (entryEligible k ctx) pre)), None) \<and>
     length (fst (IterateMaxGovernorsByGovernancePower k ctx cb)) = unat ?maxG + 1 \<and>
     sorted_wrt (\<lambda>a b. fst b \<le> fst a) (filter (entryEligible k ctx) pre)"
    if never: "\<forall>i g. \<not> cb i g" and split: "?walk = pre @ post"
      and count: "length (filter (entryEligible k ctx) pre) = unat ?maxG + 1"
      and nopanic: "\<forall>e \<in> set pre. IsActive (entryGovernor ctx e) \<longrightarrow>
        (\<exists>b. ValidateGovernorMinSelfDelegation k ctx (entryGovernor ctx e) = Inr b)"
  proof -
    have "length (filter (entryEligible k ctx) pre) \<le> length pre" by (rule length_filter_le)
    also have "\<dots> \<le> length ?walk" by (simp add: split)
    finally have nowrap: "unat ?maxG + 1 < 2 ^ 64" using count len by simp
    have run: "IterateMaxGovernorsByGovernancePower k ctx cb =
       (numbered 0 (map (entryGovernor ctx) (filter (entryEligible k ctx) pre)), None)"
      unfolding IterateMaxGovernorsByGovernancePower_def split
      using nopanic count by (intro iterateLoop_full_scan [OF never nowrap]) simp_all
    have "sorted_wrt (\<lambda>a b. fst b \<le> fst a) (pre @ post)"
      using reverse_iterator_descending [of "governorsByPower ctx"] by (simp add: split)
    then have "sorted_wrt (\<lambda>a b. fst b \<le> fst a) (filter (entryEligible k ctx) pre)"
      by (simp add: sorted_wrt_append sorted_wrt_filter)
    with run count show ?thesis by (simp add: numbered_length)
  qed
  from bound full show ?thesis by blast
qed

theorem cap_admits_one_more_witness:
  "length (governorsByPower ex_ctx) < 2 ^ 64 \<and>
   MaxGovernors (params ex_ctx) = 2 \<and>
   KVStoreReversePrefixIterator (governorsByPower ex_ctx) =
     [((400, [4]), [4]), ((300, [1]), [1]), ((250, [7]), [7]), ((200, [2]), [2]),
      ((100, [3]), [3])] @ [((50, [5]), [5])] \<and>
   entryEligible ex_keeper ex_ctx ((50, [5]), [5]) \<and>
   IterateMaxGovernorsByGovernancePower ex_keeper ex_ctx never_stop =
     ([(0, ex_governor 1 Active 300), (1, ex_governor 2 Active 200),
       (2, ex_governor 3 Active 100)], None) \<and>
   length (fst (IterateMaxGovernorsByGovernancePower ex_keeper ex_ctx never_stop)) = 3"
proof -
  let ?pre = "[((400, [4]), [4]), ((300, [1]), [1]), ((250, [7]), [7]), ((200, [2]), [2]),
      ((100, [3]), [3])] :: (PowerKey \<times> Address) list"
  let ?post = "[((50, [5]), [5])] :: (PowerKey \<times> Address) list"
  have size: "length (governorsByPower ex_ctx) < 2 ^ 64"
    by (simp add: ex_ctx_def)
  have m: "MaxGovernors (params ex_ctx) = 2"
    by (simp add: ex_ctx_def)
  have never: "\<forall>i g. \<not> never_stop i g"
    by (simp add: never_stop_def)
  have walk: "KVStoreReversePrefixIterator (governorsByPower ex_ctx) = ?pre @ ?post"
    by (simp add: KVStoreReversePrefixIterator_def ex_ctx_def)
  have el: "filter (entryEligible ex_keeper ex_ctx) ?pre =
      [((300, [1]), [1]), ((200, [2]), [2]), ((100, [3]), [3])]"
    by code_simp
  have cnt: "length (filter (entryEligible ex_keeper ex_ctx) ?pre) =
      unat (MaxGovernors (params ex_ctx)) + 1"
    by (simp only: el m) simp
  have ok: "\<forall>e \<in> set ?pre. \<not> IsActive (entryGovernor ex_ctx e) \<or>
      ValidateGovernorMinSelfDelegation ex_keeper ex_ctx (entryGovernor ex_ctx e) = Inr True"
    by code_simp
  have nopanic: "\<forall>e \<in> set ?pre. IsActive (entryGovernor ex_ctx e) \<longrightarrow>
      (\<exists>b. ValidateGovernorMinSelfDelegation ex_keeper ex_ctx (entryGovernor ex_ctx e) = Inr b)"
    using ok by blast
  have five: "entryEligible ex_keeper ex_ctx ((50, [5]), [5])"
    by code_simp
  from cap_admits_one_more [OF size, of ex_keeper never_stop ?pre ?post] never walk cnt nopanic
  have "length (fst (IterateMaxGovernorsByGovernancePower ex_keeper ex_ctx never_stop)) =
      unat (MaxGovernors (params ex_ctx)) + 1"
    by blast
  then have "length (fst (IterateMaxGovernorsByGovernancePower ex_keeper ex_ctx never_stop)) = 3"
    by (simp add: m)
  with size m walk five ex_run show ?thesis by simp
qed

text \<open>
  C4 as stated fails. The example state holds four active governors that pass the check
  and \<open>MaxGovernors\<close> is 2, yet a callback that stops at its first call is called once, not
  three times. And with \<open>MaxGovernors\<close> 0 and an active governor without self-delegation
  ranked first, the same four governors are there and the callback is not called at all:
  the check panics on the first entry.
\<close>

theorem cap_exact_count_counterexample:
  "MaxGovernors (params ex_ctx) = 2 \<and>
   filter (entryEligible ex_keeper ex_ctx)
       (KVStoreReversePrefixIterator (governorsByPower ex_ctx)) =
     [((300, [1]), [1]), ((200, [2]), [2]), ((100, [3]), [3]), ((50, [5]), [5])] \<and>
   IterateMaxGovernorsByGovernancePower ex_keeper ex_ctx always_stop =
     ([(0, ex_governor 1 Active 300)], None) \<and>
   MaxGovernors (params ex_ctx_corrupt) = 0 \<and>
   filter (entryEligible ex_keeper ex_ctx_corrupt)
       (KVStoreReversePrefixIterator (governorsByPower ex_ctx_corrupt)) =
     [((300, [1]), [1]), ((200, [2]), [2]), ((100, [3]), [3]), ((50, [5]), [5])] \<and>
   IterateMaxGovernorsByGovernancePower ex_keeper ex_ctx_corrupt never_stop =
     ([], Some NoSelfDelegation)"
proof -
  have 1: "MaxGovernors (params ex_ctx) = 2" "MaxGovernors (params ex_ctx_corrupt) = 0"
    by (simp_all add: ex_ctx_def ex_ctx_corrupt_def)
  have 2: "filter (entryEligible ex_keeper ex_ctx)
       (KVStoreReversePrefixIterator (governorsByPower ex_ctx)) =
     [((300, [1]), [1]), ((200, [2]), [2]), ((100, [3]), [3]), ((50, [5]), [5])]"
    by code_simp
  have 3: "IterateMaxGovernorsByGovernancePower ex_keeper ex_ctx always_stop =
     ([(0, ex_governor 1 Active 300)], None)"
    by code_simp
  have 4: "filter (entryEligible ex_keeper ex_ctx_corrupt)
       (KVStoreReversePrefixIterator (governorsByPower ex_ctx_corrupt)) =
     [((300, [1]), [1]), ((200, [2]), [2]), ((100, [3]), [3]), ((50, [5]), [5])]"
    by code_simp
  have 5: "IterateMaxGovernorsByGovernancePower ex_keeper ex_ctx_corrupt never_stop =
     ([], Some NoSelfDelegation)"
    by code_simp
  from 1 2 3 4 5 show ?thesis by (intro conjI)
qed

section \<open>Tally results\<close>

text \<open>
  C1, as the code has it. A \<open>TallyResult\<close> built by \<open>NewTallyResult\<close> carries three counts,
  yes, abstain and no, each the decimal string of the integer given. \<open>Equals\<close> holds exactly
  when the three counts match, which for results built from integers is when the three
  integers match. \<open>EmptyTallyResult\<close> equals itself and its three counts are the string "0".
\<close>

theorem tally_result_three_counts:
  "TallyResult_counts (NewTallyResult yes abstain no) =
     [Int_String yes, Int_String abstain, Int_String no] \<and>
   length (TallyResult_counts tr) = 3 \<and>
   (Equals tr comp' \<longleftrightarrow> TallyResult_counts tr = TallyResult_counts comp') \<and>
   (Equals tr comp' \<longleftrightarrow> tr = comp') \<and>
   (Equals (NewTallyResult yes abstain no) (NewTallyResult yes' abstain' no') \<longleftrightarrow>
      yes = yes' \<and> abstain = abstain' \<and> no = no') \<and>
   Equals EmptyTallyResult EmptyTallyResult \<and>
   TallyResult_counts EmptyTallyResult = [''0'', ''0'', ''0'']"
  using Int_String_inj
  by (auto simp: TallyResult_counts_def NewTallyResult_def Equals_def EmptyTallyResult_def
      Int_String_0)

theorem tally_result_three_counts_witness:
  "TallyResult_counts (NewTallyResult 2000 0 7) = [''2000'', ''0'', ''7''] \<and>
   \<not> Equals (NewTallyResult 2000 0 7) (NewTallyResult 2000 1 7) \<and>
   Equals EmptyTallyResult (NewTallyResult 0 0 0)"
proof -
  note r = tally_result_three_counts [of 2000 0 7 EmptyTallyResult "NewTallyResult 0 0 0" 2000 1 7]
  have 1: "TallyResult_counts (NewTallyResult 2000 0 7) = [''2000'', ''0'', ''7'']"
    using r by (simp add: Int_String_def natString.simps digit_def)
  have 2: "\<not> Equals (NewTallyResult 2000 0 7) (NewTallyResult 2000 1 7)"
    using r by simp
  have 3: "Equals EmptyTallyResult (NewTallyResult 0 0 0)"
    using r by (simp add: EmptyTallyResult_def)
  from 1 2 3 show ?thesis by simp
qed

text \<open>
  C1 as stated fails: the result has three counts, not four; there is no count of
  no-with-veto votes in what \<open>NewTallyResult\<close> builds or in what \<open>Equals\<close> compares.
\<close>

theorem tally_result_four_counts_counterexample:
  "TallyResult_counts EmptyTallyResult = [''0'', ''0'', ''0''] \<and>
   length (TallyResult_counts EmptyTallyResult) \<noteq> 4"
  by (simp add: TallyResult_counts_def NewTallyResult_def EmptyTallyResult_def Int_String_0)

end
